theory Spec2Isabelle
  imports Main "HOL-Library.AList"
begin

section \<open>The dependency-injection container of fastapi_toolkit\<close>

text \<open>
  This theory embeds \<^verbatim>\<open>fastapi_toolkit/dependency_injection.py\<close>: the class
  \<^verbatim>\<open>DIContainer\<close> with its three dictionaries, its three registration methods, the
  lookup \<^verbatim>\<open>get\<close> and the reflective fallback \<^verbatim>\<open>_auto_wire\<close>.
\<close>

subsection \<open>Keys, objects and exceptions\<close>

text \<open>
  A key is any hashable Python object. \<^verbatim>\<open>inspect.isclass\<close> tells classes from everything
  else, so a key is either a class (by name) or some other object (a tag).
\<close>

datatype key = Cls string | Tag string

fun isclass :: "key \<Rightarrow> bool" where
  "isclass (Cls c) = True"
| "isclass (Tag t) = False"

text \<open>Python objects, as far as the container passes them around: it never looks inside.\<close>

datatype pyval =
    IntVal int
  | StrVal string
  | TupleVal "pyval list"
  | DictVal "(string \<times> pyval) list"
  | Instance string "(string \<times> pyval) list"

text \<open>
  The exceptions that derive from \<^verbatim>\<open>Exception\<close> (the ones \<^verbatim>\<open>except Exception\<close>
  intercepts). The container itself raises two, both of Python type \<^verbatim>\<open>ValueError\<close>:
  \<^item> \<open>NoRegistrationFound k\<close> is \<^verbatim>\<open>ValueError(f"No registration found for {interface}")\<close>;
  \<^item> \<open>FailedToAutoWire c e\<close> is \<^verbatim>\<open>ValueError(f"Failed to auto-wire {cls}: {e}")\<close>,
    raised while \<open>e\<close> is being handled.

  \<open>TypeError t\<close> is what a call raises when its arguments do not fit the signature:
  a keyword for a parameter that has its value already, keywords that name
  positional-only parameters, a keyword that no parameter takes, more positional
  arguments than parameters take them, or required arguments that are missing.
  \<open>RecursionError\<close> is what the interpreter raises at its recursion limit, and
  \<open>Raised m\<close> any other exception of user code. What derives from
  \<^verbatim>\<open>BaseException\<close> only (\<^verbatim>\<open>KeyboardInterrupt\<close>, \<^verbatim>\<open>SystemExit\<close>) ends the program
  rather than the lookup and is left out.
\<close>

datatype type_error =
    MultipleValues string
  | PositionalOnlyAsKeyword "string list"
  | UnexpectedKeyword string
  | TooManyPositional
  | MissingArguments "string list"

datatype exn =
    NoRegistrationFound key
  | FailedToAutoWire string exn
  | TypeError type_error
  | RecursionError
  | Raised string


type_synonym kwargs = "(string \<times> pyval) list"

subsection \<open>The container and the program around it\<close>

text \<open>
  \<^verbatim>\<open>__init__\<close> creates three dictionaries. A factory is a callable object; the
  dictionary holds a reference to it (\<open>fref\<close>), and the program says what calling it does.
\<close>

type_synonym fref = nat

record container =
  services :: "key \<rightharpoonup> pyval"
  singletons :: "key \<rightharpoonup> pyval"
  factories :: "key \<rightharpoonup> fref"

text \<open>
  The state a call runs in is the container together with the rest of the program's
  state, of some type \<open>'w\<close>. User code (a factory, a constructor) is a function on the whole
  state: it may have effects, may raise, and may reach the container too.
\<close>

type_synonym 'w state = "container \<times> 'w"

type_synonym 'w outcome = "(exn + pyval) \<times> 'w state"

text \<open>
  What \<^verbatim>\<open>_auto_wire\<close> reads of a class: the parameters of \<^verbatim>\<open>__init__\<close> as
  \<^verbatim>\<open>inspect.signature\<close> lists them (the receiver first; each with its name, its kind
  and its default value if it has one), the dictionary \<^verbatim>\<open>get_type_hints\<close> returns, and
  the body of \<^verbatim>\<open>__init__\<close>, run on the bound arguments. Both library calls are taken
  to succeed. A class without an \<^verbatim>\<open>__init__\<close> of its own has the signature of
  \<^verbatim>\<open>object.__init__\<close>, which is \<^verbatim>\<open>(self, /, *args, **kwargs)\<close>, and no hints.
\<close>

datatype kind =
    POSITIONAL_ONLY
  | POSITIONAL_OR_KEYWORD
  | VAR_POSITIONAL
  | KEYWORD_ONLY
  | VAR_KEYWORD

type_synonym parameter = "string \<times> kind \<times> pyval option"

record 'w class_decl =
  parameters :: "parameter list"
  type_hints :: "string \<rightharpoonup> key"
  init :: "kwargs \<Rightarrow> 'w state \<Rightarrow> 'w outcome"

record 'w program =
  class_table :: "string \<Rightarrow> 'w class_decl"
  callables :: "fref \<Rightarrow> 'w state \<Rightarrow> 'w outcome"

definition new_container :: container where
  "new_container = \<lparr>services = Map.empty, singletons = Map.empty, factories = Map.empty\<rparr>"

definition register_singleton :: "container \<Rightarrow> key \<Rightarrow> pyval \<Rightarrow> container" where
  "register_singleton C interface implementation =
     C\<lparr>singletons := (singletons C)(interface \<mapsto> implementation)\<rparr>"

definition register_transient :: "container \<Rightarrow> key \<Rightarrow> fref \<Rightarrow> container" where
  "register_transient C interface factory =
     C\<lparr>factories := (factories C)(interface \<mapsto> factory)\<rparr>"

definition register_instance :: "container \<Rightarrow> key \<Rightarrow> pyval \<Rightarrow> container" where
  "register_instance C interface inst =
     C\<lparr>services := (services C)(interface \<mapsto> inst)\<rparr>"

subsection \<open>Calling a class\<close>

text \<open>
  \<^verbatim>\<open>cls(**kwargs)\<close> creates the object and calls \<^verbatim>\<open>__init__\<close> with the object as the
  one positional argument and everything else by keyword. The interpreter binds the
  arguments to the parameters in this order, and the first step that fails raises
  \<^verbatim>\<open>TypeError\<close>.

  The object goes to the first parameter if that one is positional, or into a
  \<^verbatim>\<open>*args\<close> in first place.
\<close>

fun after_receiver :: "parameter list \<Rightarrow> type_error + parameter list" where
  "after_receiver [] = Inl TooManyPositional"
| "after_receiver ((n, k, d) # ps) =
     (if k = POSITIONAL_ONLY \<or> k = POSITIONAL_OR_KEYWORD then Inr ps
      else if k = VAR_POSITIONAL then Inr ((n, k, d) # ps)
      else Inl TooManyPositional)"

fun taken_by_receiver :: "parameter list \<Rightarrow> string list" where
  "taken_by_receiver [] = []"
| "taken_by_receiver ((n, k, d) # ps) = (if k = POSITIONAL_OR_KEYWORD then [n] else [])"

text \<open>
  Then the keywords, in the order of the dictionary. A keyword that names the parameter
  holding the object is refused (multiple values); one that names another parameter
  that can be passed by keyword is bound to it; any other goes into \<^verbatim>\<open>**kwargs\<close> if the
  signature has one. Without \<^verbatim>\<open>**kwargs\<close> it is refused: if some keywords name
  positional-only parameters the error lists those, else it names the keyword.
\<close>

fun takes_keyword :: "kind \<Rightarrow> bool" where
  "takes_keyword POSITIONAL_OR_KEYWORD = True"
| "takes_keyword KEYWORD_ONLY = True"
| "takes_keyword POSITIONAL_ONLY = False"
| "takes_keyword VAR_POSITIONAL = False"
| "takes_keyword VAR_KEYWORD = False"

definition keyword_names :: "parameter list \<Rightarrow> string list" where
  "keyword_names ps = map fst (filter (\<lambda>(n, k, d). takes_keyword k) ps)"

definition has_var_keyword :: "parameter list \<Rightarrow> bool" where
  "has_var_keyword ps = list_ex (\<lambda>(n, k, d). k = VAR_KEYWORD) ps"

definition positional_only_given :: "parameter list \<Rightarrow> kwargs \<Rightarrow> string list" where
  "positional_only_given ps kw =
     filter (\<lambda>n. n \<in> set (map fst kw)) (map fst (filter (\<lambda>(n, k, d). k = POSITIONAL_ONLY) ps))"

definition refused :: "parameter list \<Rightarrow> kwargs \<Rightarrow> string \<Rightarrow> type_error option" where
  "refused ps kw n =
     (if n \<in> set (taken_by_receiver ps) then Some (MultipleValues n)
      else if n \<in> set (keyword_names ps) \<or> has_var_keyword ps then None
      else if positional_only_given ps kw \<noteq> []
      then Some (PositionalOnlyAsKeyword (positional_only_given ps kw))
      else Some (UnexpectedKeyword n))"

definition keyword_errors :: "parameter list \<Rightarrow> kwargs \<Rightarrow> type_error list" where
  "keyword_errors ps kw = List.map_filter (refused ps kw) (map fst kw)"

text \<open>
  A parameter without an argument takes its default. Then the positional parameters
  that are left without a value are missing and the call raises \<^verbatim>\<open>TypeError\<close> naming
  them; if there are none, the same for the keyword-only ones. \<^verbatim>\<open>*args\<close> and
  \<^verbatim>\<open>**kwargs\<close> are never missing: \<^verbatim>\<open>*args\<close> is the tuple of the positional arguments
  after the object (there are none) and \<^verbatim>\<open>**kwargs\<close> the dictionary of the keywords no
  parameter took.
\<close>

definition argument :: "kwargs \<Rightarrow> parameter \<Rightarrow> pyval option" where
  "argument kw p =
     (case p of (n, k, d) \<Rightarrow>
        (if takes_keyword k then (case map_of kw n of Some v \<Rightarrow> Some v | None \<Rightarrow> d) else d))"

definition missing_positional :: "parameter list \<Rightarrow> kwargs \<Rightarrow> string list" where
  "missing_positional ps kw =
     map fst (filter (\<lambda>p. (fst (snd p) = POSITIONAL_ONLY \<or> fst (snd p) = POSITIONAL_OR_KEYWORD) \<and>
                          argument kw p = None) ps)"

definition missing_keyword_only :: "parameter list \<Rightarrow> kwargs \<Rightarrow> string list" where
  "missing_keyword_only ps kw =
     map fst (filter (\<lambda>p. fst (snd p) = KEYWORD_ONLY \<and> argument kw p = None) ps)"

definition missing_args :: "parameter list \<Rightarrow> kwargs \<Rightarrow> string list" where
  "missing_args ps kw =
     (if missing_positional ps kw \<noteq> [] then missing_positional ps kw
      else missing_keyword_only ps kw)"

text \<open>
  What the body of \<^verbatim>\<open>__init__\<close> then sees, the object apart: each parameter with its
  value.
\<close>

definition bound_args :: "parameter list \<Rightarrow> kwargs \<Rightarrow> kwargs" where
  "bound_args ps kw =
     concat (map (\<lambda>p.
       if fst (snd p) = VAR_POSITIONAL then [(fst p, TupleVal [])]
       else if fst (snd p) = VAR_KEYWORD
       then [(fst p, DictVal (filter (\<lambda>a. fst a \<notin> set (keyword_names ps)) kw))]
       else (case argument kw p of Some v \<Rightarrow> [(fst p, v)] | None \<Rightarrow> [])) ps)"

definition call_cls :: "'w class_decl \<Rightarrow> kwargs \<Rightarrow> 'w state \<Rightarrow> 'w outcome" where
  "call_cls decl kw s =
     (case keyword_errors (parameters decl) kw of
        t # ts \<Rightarrow> (Inl (TypeError t), s)
      | [] \<Rightarrow>
         (case after_receiver (parameters decl) of
            Inl t \<Rightarrow> (Inl (TypeError t), s)
          | Inr ps \<Rightarrow>
             (if missing_args ps kw \<noteq> []
              then (Inl (TypeError (MissingArguments (missing_args ps kw))), s)
              else init decl (bound_args ps kw) s)))"

subsection \<open>Resolution\<close>

text \<open>
  The handler of \<^verbatim>\<open>_auto_wire\<close>: \<^verbatim>\<open>except Exception as e: raise ValueError(...)\<close>.
\<close>

definition reraise :: "string \<Rightarrow> 'w outcome \<Rightarrow> 'w outcome" where
  "reraise c out =
     (case out of
        (Inl e, s) \<Rightarrow> (Inl (FailedToAutoWire c e), s)
      | (Inr v, s) \<Rightarrow> (Inr v, s))"

text \<open>
  \<^verbatim>\<open>get\<close> and \<^verbatim>\<open>_auto_wire\<close> call each other. Python bounds the depth of calls: the
  first argument \<open>d\<close> is how many nested \<^verbatim>\<open>_auto_wire\<close> calls the interpreter still
  allows. With none left, \<^verbatim>\<open>RecursionError\<close> is raised inside the \<^verbatim>\<open>try\<close> block, and
  the handler turns it into a \<^verbatim>\<open>ValueError\<close> like any other exception.
  \<open>build_kwargs\<close> is the \<^verbatim>\<open>for\<close> loop over \<^verbatim>\<open>sig.parameters.items()\<close>.
\<close>

fun get :: "nat \<Rightarrow> 'w program \<Rightarrow> 'w state \<Rightarrow> key \<Rightarrow> 'w outcome"
  and auto_wire :: "nat \<Rightarrow> 'w program \<Rightarrow> 'w state \<Rightarrow> string \<Rightarrow> 'w outcome"
  and build_kwargs ::
    "nat \<Rightarrow> 'w program \<Rightarrow> (string \<rightharpoonup> key) \<Rightarrow> parameter list \<Rightarrow> kwargs \<Rightarrow>
     'w state \<Rightarrow> (exn + kwargs) \<times> 'w state"
  where
  "get d P s interface =
     (case singletons (fst s) interface of
        Some v \<Rightarrow> (Inr v, s)
      | None \<Rightarrow>
         (case services (fst s) interface of
            Some v \<Rightarrow> (Inr v, s)
          | None \<Rightarrow>
             (case factories (fst s) interface of
                Some f \<Rightarrow> callables P f s
              | None \<Rightarrow>
                 (case interface of
                    Cls c \<Rightarrow> auto_wire d P s c
                  | Tag t \<Rightarrow> (Inl (NoRegistrationFound interface), s)))))"
| "auto_wire 0 P s c = (Inl (FailedToAutoWire c RecursionError), s)"
| "auto_wire (Suc d) P s c =
     (case build_kwargs d P (type_hints (class_table P c)) (parameters (class_table P c)) [] s of
        (Inl e, s') \<Rightarrow> (Inl (FailedToAutoWire c e), s')
      | (Inr kw, s') \<Rightarrow> reraise c (call_cls (class_table P c) kw s'))"
| "build_kwargs d P th [] kw s = (Inr kw, s)"
| "build_kwargs d P th (p # ps) kw s =
     (if fst p = ''self'' then build_kwargs d P th ps kw s
      else
        (case th (fst p) of
           None \<Rightarrow> build_kwargs d P th ps kw s
         | Some param_type \<Rightarrow>
            (case get d P s param_type of
               (Inl e, s') \<Rightarrow> (Inl e, s')
             | (Inr v, s') \<Rightarrow> build_kwargs d P th ps (AList.update (fst p) v kw) s')))"

declare get.simps [simp del]

subsection \<open>Sequences of calls\<close>

text \<open>
  A caller's script: registrations and lookups in some order. \<open>run\<close> performs them one
  after the other and collects what each \<^verbatim>\<open>get\<close> gave (a value or an exception,
  which the caller catches).
\<close>

datatype registration =
    RegisterSingleton key pyval
  | RegisterTransient key fref
  | RegisterInstance key pyval

fun register :: "container \<Rightarrow> registration \<Rightarrow> container" where
  "register C (RegisterSingleton k v) = register_singleton C k v"
| "register C (RegisterTransient k f) = register_transient C k f"
| "register C (RegisterInstance k v) = register_instance C k v"

fun reg_key :: "registration \<Rightarrow> key" where
  "reg_key (RegisterSingleton k v) = k"
| "reg_key (RegisterTransient k f) = k"
| "reg_key (RegisterInstance k v) = k"

datatype op = Register registration | Resolve key

fun run :: "nat \<Rightarrow> 'w program \<Rightarrow> op list \<Rightarrow> 'w state \<Rightarrow> (exn + pyval) list \<times> 'w state" where
  "run d P [] s = ([], s)"
| "run d P (Register r # ops) s = run d P ops (register (fst s) r, snd s)"
| "run d P (Resolve k # ops) s =
     (case get d P s k of
        (r, s') \<Rightarrow> (case run d P ops s' of (rs, s'') \<Rightarrow> (r # rs, s'')))"

fun is_resolve :: "op \<Rightarrow> bool" where
  "is_resolve (Resolve k) = True"
| "is_resolve (Register r) = False"

text \<open>An operation that is a lookup of \<open>K\<close>, or a registration under another key.\<close>

fun unrelated :: "key \<Rightarrow> op \<Rightarrow> bool" where
  "unrelated K (Register r) = (reg_key r \<noteq> K)"
| "unrelated K (Resolve k) = (k = K)"

text \<open>Calling a function \<open>n\<close> times in a row, collecting the results.\<close>

fun call_n :: "nat \<Rightarrow> ('w state \<Rightarrow> 'w outcome) \<Rightarrow> 'w state \<Rightarrow> (exn + pyval) list \<times> 'w state" where
  "call_n 0 f s = ([], s)"
| "call_n (Suc n) f s =
     (case f s of (r, s') \<Rightarrow> (case call_n n f s' of (rs, s'') \<Rightarrow> (r # rs, s'')))"

text \<open>A later \<^verbatim>\<open>register_instance\<close> for the key \<open>K\<close>.\<close>

fun instance_on :: "key \<Rightarrow> op \<Rightarrow> bool" where
  "instance_on K (Register (RegisterInstance k v)) = (k = K)"
| "instance_on K (Register (RegisterSingleton k v)) = False"
| "instance_on K (Register (RegisterTransient k f)) = False"
| "instance_on K (Resolve k) = False"

text \<open>
  What \<^verbatim>\<open>get\<close> finds for a key in the dictionaries, in the order it looks: a stored
  object, or a factory.
\<close>

definition first_match :: "container \<Rightarrow> key \<Rightarrow> (pyval + fref) option" where
  "first_match C k =
     (case singletons C k of
        Some v \<Rightarrow> Some (Inl v)
      | None \<Rightarrow>
         (case services C k of
            Some v \<Rightarrow> Some (Inl v)
          | None \<Rightarrow> (case factories C k of Some f \<Rightarrow> Some (Inr f) | None \<Rightarrow> None)))"

text \<open>
  Two containers that hold the same factories and the same objects under every key but
  \<open>K\<close>, where the first has a singleton and the second has the same object as a
  singleton or, without a singleton, as an instance.
\<close>

definition differ_at :: "key \<Rightarrow> container \<Rightarrow> container \<Rightarrow> bool" where
  "differ_at K C1 C2 =
     (factories C1 = factories C2 \<and>
      (\<forall>k. k \<noteq> K \<longrightarrow> singletons C1 k = singletons C2 k \<and> services C1 k = services C2 k) \<and>
      (\<exists>v. singletons C1 K = Some v \<and>
           (singletons C2 K = Some v \<or> (singletons C2 K = None \<and> services C2 K = Some v))))"

subsection \<open>What user code may do to the container\<close>

text \<open>
  User code that never calls a registration method leaves the three dictionaries as
  they are. User code that does not reach the container at all is oblivious: what it
  returns and what it does to the rest of the state do not depend on the container.
\<close>

definition leaves_container :: "('w state \<Rightarrow> 'w outcome) \<Rightarrow> bool" where
  "leaves_container f = (\<forall>t. fst (snd (f t)) = fst t)"

definition oblivious :: "('w state \<Rightarrow> 'w outcome) \<Rightarrow> bool" where
  "oblivious f =
     (\<forall>C C' w. fst (f (C, w)) = fst (f (C', w)) \<and>
                snd (snd (f (C, w))) = snd (snd (f (C', w))) \<and>
                fst (snd (f (C, w))) = C)"


subsection \<open>The dependency graph of auto-wiring\<close>

definition unregistered :: "container \<Rightarrow> key \<Rightarrow> bool" where
  "unregistered C k =
     (singletons C k = None \<and> services C k = None \<and> factories C k = None)"

text \<open>
  The types \<^verbatim>\<open>_auto_wire\<close> asks \<^verbatim>\<open>get\<close> for, in the order of the loop: the hints of
  the parameters that are not named \<^verbatim>\<open>self\<close> and have one.
\<close>

fun wired :: "(string \<rightharpoonup> key) \<Rightarrow> parameter list \<Rightarrow> key list" where
  "wired th [] = []"
| "wired th (p # ps) =
     (if fst p = ''self'' then wired th ps
      else (case th (fst p) of None \<Rightarrow> wired th ps | Some t \<Rightarrow> t # wired th ps))"

definition wired_types :: "'w program \<Rightarrow> string \<Rightarrow> key list" where
  "wired_types P c = wired (type_hints (class_table P c)) (parameters (class_table P c))"




subsection \<open>A small program\<close>

text \<open>
  Classes and a factory to run the container on. \<^verbatim>\<open>Service(repo: Repo)\<close>,
  \<^verbatim>\<open>Opt(x=5)\<close>, \<^verbatim>\<open>Req(x)\<close>, \<^verbatim>\<open>Node(parent: Node)\<close>,
  \<^verbatim>\<open>Tree(label: Label, parent: Tree)\<close> and \<^verbatim>\<open>Labelled(repo: Repo, label: Label)\<close>,
  where \<^verbatim>\<open>Label\<close> is not a class; \<^verbatim>\<open>Plain\<close> has no \<^verbatim>\<open>__init__\<close> of its own; every
  other class has a constructor without parameters. Each \<^verbatim>\<open>__init__\<close> stores its
  arguments, but that of \<^verbatim>\<open>Broken\<close>, which raises, and that of \<^verbatim>\<open>Plain\<close>, which
  stores nothing. The one factory counts its calls in the state and returns the count.
\<close>

definition plain_init :: "string \<Rightarrow> kwargs \<Rightarrow> nat state \<Rightarrow> nat outcome" where
  "plain_init c args s = (Inr (Instance c args), s)"

definition ex_classes :: "string \<Rightarrow> nat class_decl" where
  "ex_classes c =
     (if c = ''Service'' then
        \<lparr>parameters = [(''self'', POSITIONAL_OR_KEYWORD, None),
                       (''repo'', POSITIONAL_OR_KEYWORD, None)],
         type_hints = [''repo'' \<mapsto> Cls ''Repo''],
         init = plain_init c\<rparr>
      else if c = ''Opt'' then
        \<lparr>parameters = [(''self'', POSITIONAL_OR_KEYWORD, None),
                       (''x'', POSITIONAL_OR_KEYWORD, Some (IntVal 5))],
         type_hints = Map.empty,
         init = plain_init c\<rparr>
      else if c = ''Req'' then
        \<lparr>parameters = [(''self'', POSITIONAL_OR_KEYWORD, None),
                       (''x'', POSITIONAL_OR_KEYWORD, None)],
         type_hints = Map.empty,
         init = plain_init c\<rparr>
      else if c = ''Node'' then
        \<lparr>parameters = [(''self'', POSITIONAL_OR_KEYWORD, None),
                       (''parent'', POSITIONAL_OR_KEYWORD, None)],
         type_hints = [''parent'' \<mapsto> Cls ''Node''],
         init = plain_init c\<rparr>
      else if c = ''Tree'' then
        \<lparr>parameters = [(''self'', POSITIONAL_OR_KEYWORD, None),
                       (''label'', POSITIONAL_OR_KEYWORD, None),
                       (''parent'', POSITIONAL_OR_KEYWORD, None)],
         type_hints = [''label'' \<mapsto> Tag ''Label'', ''parent'' \<mapsto> Cls ''Tree''],
         init = plain_init c\<rparr>
      else if c = ''Labelled'' then
        \<lparr>parameters = [(''self'', POSITIONAL_OR_KEYWORD, None),
                       (''repo'', POSITIONAL_OR_KEYWORD, None),
                       (''label'', POSITIONAL_OR_KEYWORD, None)],
         type_hints = [''repo'' \<mapsto> Cls ''Repo'', ''label'' \<mapsto> Tag ''Label''],
         init = plain_init c\<rparr>
      else if c = ''Plain'' then
        \<lparr>parameters = [(''self'', POSITIONAL_ONLY, None),
                       (''args'', VAR_POSITIONAL, None),
                       (''kwargs'', VAR_KEYWORD, None)],
         type_hints = Map.empty,
         init = (\<lambda>args s. (Inr (Instance c []), s))\<rparr>
      else if c = ''Broken'' then
        \<lparr>parameters = [(''self'', POSITIONAL_OR_KEYWORD, None)],
         type_hints = Map.empty,
         init = (\<lambda>args s. (Inl (Raised ''boom''), s))\<rparr>
      else
        \<lparr>parameters = [(''self'', POSITIONAL_OR_KEYWORD, None)],
         type_hints = Map.empty,
         init = plain_init c\<rparr>)"

definition counter :: "nat state \<Rightarrow> nat outcome" where
  "counter s = (Inr (IntVal (int (snd s))), (fst s, Suc (snd s)))"

definition ex_program :: "nat program" where
  "ex_program = \<lparr>class_table = ex_classes, callables = (\<lambda>f. counter)\<rparr>"



section \<open>Properties\<close>

lemmas ex_defs = ex_program_def ex_classes_def new_container_def call_cls_def missing_args_def
  missing_positional_def missing_keyword_only_def argument_def keyword_errors_def refused_def
  positional_only_given_def has_var_keyword_def keyword_names_def List.map_filter_simps
  bound_args_def reraise_def plain_init_def counter_def register_singleton_def
  register_transient_def register_instance_def get.simps

subsection \<open>The order of resolution\<close>

text \<open>
  Claim C1. For every key, \<^verbatim>\<open>get\<close> takes the first of these that applies: the entry of
  the singleton dictionary; the entry of the instance dictionary; the factory of the
  factory dictionary, which it calls, giving back exactly what the call gave (nothing is
  stored); auto-wiring, when the key is a class; and otherwise the failure
  \<^verbatim>\<open>ValueError("No registration found for ...")\<close>.
\<close>

theorem resolution_order:
  "(singletons C k = Some v \<longrightarrow> get d P (C, w) k = (Inr v, (C, w))) \<and>
   (singletons C k = None \<and> services C k = Some v \<longrightarrow> get d P (C, w) k = (Inr v, (C, w))) \<and>
   (singletons C k = None \<and> services C k = None \<and> factories C k = Some f \<longrightarrow>
      get d P (C, w) k = callables P f (C, w)) \<and>
   (singletons C k = None \<and> services C k = None \<and> factories C k = None \<and> k = Cls c \<longrightarrow>
      get d P (C, w) k = auto_wire d P (C, w) c) \<and>
   (singletons C k = None \<and> services C k = None \<and> factories C k = None \<and> \<not> isclass k \<longrightarrow>
      get d P (C, w) k = (Inl (NoRegistrationFound k), (C, w)))"
  by (cases k) (auto simp: get.simps)

theorem resolution_order_witness:
  "get (Suc 0) ex_program
     (register_instance (register_singleton new_container (Tag ''db'') (IntVal 1)) (Tag ''db'') (IntVal 2), 0)
     (Tag ''db'')
   = (Inr (IntVal 1),
      (register_instance (register_singleton new_container (Tag ''db'') (IntVal 1)) (Tag ''db'') (IntVal 2), 0)) \<and>
   get (Suc 0) ex_program
     (register_transient (register_instance new_container (Tag ''db'') (IntVal 2)) (Tag ''db'') 0, 0)
     (Tag ''db'')
   = (Inr (IntVal 2),
      (register_transient (register_instance new_container (Tag ''db'') (IntVal 2)) (Tag ''db'') 0, 0)) \<and>
   get (Suc 0) ex_program (register_transient new_container (Cls ''Repo'') 0, 4) (Cls ''Repo'')
   = (Inr (IntVal 4), (register_transient new_container (Cls ''Repo'') 0, 5)) \<and>
   get (Suc 0) ex_program (new_container, 0) (Cls ''Repo'')
   = (Inr (Instance ''Repo'' []), (new_container, 0)) \<and>
   get (Suc 0) ex_program (new_container, 0) (Tag ''db'')
   = (Inl (NoRegistrationFound (Tag ''db'')), (new_container, 0))"
proof -
  let ?C1 = "register_instance (register_singleton new_container (Tag ''db'') (IntVal 1)) (Tag ''db'') (IntVal 2)"
  let ?C2 = "register_transient (register_instance new_container (Tag ''db'') (IntVal 2)) (Tag ''db'') 0"
  let ?C3 = "register_transient new_container (Cls ''Repo'') 0"
  have 1: "singletons ?C1 (Tag ''db'') = Some (IntVal 1)"
    by (simp add: ex_defs)
  have 2: "singletons ?C2 (Tag ''db'') = None \<and> services ?C2 (Tag ''db'') = Some (IntVal 2)"
    by (simp add: ex_defs)
  have 3: "singletons ?C3 (Cls ''Repo'') = None \<and> services ?C3 (Cls ''Repo'') = None \<and>
           factories ?C3 (Cls ''Repo'') = Some 0"
    by (simp add: ex_defs)
  have 4: "singletons new_container k = None \<and> services new_container k = None \<and>
           factories new_container k = None" for k
    by (simp add: ex_defs)
  have a: "auto_wire (Suc 0) ex_program (new_container, 0) ''Repo'' =
           (Inr (Instance ''Repo'' []), (new_container, 0))"
    by (simp add: ex_defs)
  have c: "callables ex_program 0 (?C3, 4) = (Inr (IntVal 4), (?C3, 5))"
    by (simp add: ex_program_def counter_def)
  show ?thesis
    using resolution_order [of ?C1 "Tag ''db''" "IntVal 1" "Suc 0" ex_program 0]
      resolution_order [of ?C2 "Tag ''db''" "IntVal 2" "Suc 0" ex_program 0]
      resolution_order [of ?C3 "Cls ''Repo''" _ "Suc 0" ex_program 4 0]
      resolution_order [of new_container "Cls ''Repo''" _ "Suc 0" ex_program 0 _ "''Repo''"]
      resolution_order [of new_container "Tag ''db''" _ "Suc 0" ex_program 0]
      1 2 3 4 a c
    by simp
qed

subsection \<open>Keys nobody registered\<close>

text \<open>
  Claim C8. For a key that is in none of the three dictionaries and is not a class,
  \<^verbatim>\<open>get\<close> fails with the \<^verbatim>\<open>ValueError\<close> that names the key. The failure is the
  outcome of the call itself: nothing is tried again, and the state is left as it was.
\<close>

theorem unresolved_leaf:
  assumes "singletons (fst s) k = None" and "services (fst s) k = None"
    and "factories (fst s) k = None" and "\<not> isclass k"
  shows "get d P s k = (Inl (NoRegistrationFound k), s)"
  using assms by (cases k) (simp_all add: get.simps)

theorem unresolved_leaf_witness:
  "get (Suc (Suc 0)) ex_program (register_singleton new_container (Tag ''cache'') (IntVal 1), 0) (Tag ''db'')
   = (Inl (NoRegistrationFound (Tag ''db'')),
      (register_singleton new_container (Tag ''cache'') (IntVal 1), 0))"
  using unresolved_leaf [of "(register_singleton new_container (Tag ''cache'') (IntVal 1), 0)"
      "Tag ''db''" "Suc (Suc 0)" ex_program]
  by (simp add: register_singleton_def new_container_def)

subsection \<open>Lookups leave the container alone\<close>

lemma leavesD: "leaves_container f \<Longrightarrow> fst (snd (f t)) = fst t"
  unfolding leaves_container_def by blast

lemma call_cls_cases:
  "(\<exists>t. call_cls decl kw s = (Inl (TypeError t), s)) \<or>
   (\<exists>args. call_cls decl kw s = init decl args s)"
  by (auto simp: call_cls_def split: sum.splits list.splits)

lemma call_cls_leaves:
  assumes "\<forall>args. leaves_container (init decl args)"
  shows "fst (snd (call_cls decl kw s)) = fst s"
  using call_cls_cases [of decl kw s] assms by (auto simp: leavesD)

lemma reraise_state [simp]: "snd (reraise c out) = snd out"
  by (simp add: reraise_def split: prod.splits sum.splits)

lemma frame_aux:
  assumes F: "\<forall>f\<in>ran (factories C0). leaves_container (callables P f)"
    and I: "\<forall>c kw. leaves_container (init (class_table P c) kw)"
  shows "fst s = C0 \<Longrightarrow> fst (snd (get d P s k)) = C0"
    and "fst s = C0 \<Longrightarrow> fst (snd (auto_wire d P s c)) = C0"
    and "fst s = C0 \<Longrightarrow> fst (snd (build_kwargs d P th ps kw s)) = C0"
  using assms
proof (induction d P s k and d P s c and d P th ps kw s rule: get_auto_wire_build_kwargs.induct)
  case (1 d P s interface)
  have fac: "fst (snd (callables P f s)) = C0" if "factories (fst s) interface = Some f" for f
  proof -
    from that "1.prems"(1) have "f \<in> ran (factories C0)" by (auto simp: ran_def)
    with "1.prems"(2) have "leaves_container (callables P f)" by blast
    then show ?thesis using "1.prems"(1) by (simp add: leavesD)
  qed
  show ?case
    using 1 fac by (simp add: get.simps split: option.splits key.splits)
next
  case (2 P s c)
  then show ?case by simp
next
  case (3 d P s c)
  then show ?case
    by (auto simp: call_cls_leaves split: prod.splits sum.splits)
next
  case (4 d P th kw s)
  then show ?case by simp
next
  case (5 d P th p ps kw s)
  then show ?case
    by (auto split: prod.splits sum.splits option.splits)
qed

lemma ex_init_leaves: "leaves_container (init (class_table ex_program c) kw)"
  by (simp add: leaves_container_def ex_program_def ex_classes_def plain_init_def)

lemma ex_callables_leave: "leaves_container (callables ex_program f)"
  by (simp add: leaves_container_def ex_program_def counter_def)

text \<open>
  Claim C10. Whatever the key, and whether the call returns or fails, \<^verbatim>\<open>get\<close> leaves the
  three dictionaries as they were, provided the factories registered in the container
  and the constructors of the program's classes do not change them themselves. So
  neither what a factory returned nor an auto-wired instance is stored.
\<close>

theorem get_leaves_registry:
  assumes "\<forall>f\<in>ran (factories C). leaves_container (callables P f)"
    and "\<forall>c kw. leaves_container (init (class_table P c) kw)"
  shows "fst (snd (get d P (C, w) k)) = C"
  using frame_aux(1) [OF assms, of "(C, w)" d k] by simp

theorem get_leaves_registry_witness:
  "fst (snd (get (Suc (Suc 0)) ex_program
       (register_transient (register_singleton new_container (Tag ''db'') (IntVal 1)) (Cls ''Repo'') 0, 0)
       (Cls ''Service'')))
   = register_transient (register_singleton new_container (Tag ''db'') (IntVal 1)) (Cls ''Repo'') 0 \<and>
   get (Suc (Suc 0)) ex_program
       (register_transient (register_singleton new_container (Tag ''db'') (IntVal 1)) (Cls ''Repo'') 0, 0)
       (Cls ''Service'')
   = (Inr (Instance ''Service'' [(''repo'', IntVal 0)]),
      (register_transient (register_singleton new_container (Tag ''db'') (IntVal 1)) (Cls ''Repo'') 0, 1)) \<and>
   fst (snd (get (Suc (Suc 0)) ex_program
       (register_transient (register_singleton new_container (Tag ''db'') (IntVal 1)) (Cls ''Repo'') 0, 0)
       (Cls ''Tree'')))
   = register_transient (register_singleton new_container (Tag ''db'') (IntVal 1)) (Cls ''Repo'') 0"
proof -
  let ?C = "register_transient (register_singleton new_container (Tag ''db'') (IntVal 1)) (Cls ''Repo'') 0"
  have F: "\<forall>f\<in>ran (factories ?C). leaves_container (callables ex_program f)"
    by (simp add: ex_callables_leave)
  have I: "\<forall>c kw. leaves_container (init (class_table ex_program c) kw)"
    by (simp add: ex_init_leaves)
  have "get (Suc (Suc 0)) ex_program (?C, 0) (Cls ''Service'')
        = (Inr (Instance ''Service'' [(''repo'', IntVal 0)]), (?C, 1))"
    by (simp add: ex_defs)
  then show ?thesis
    using get_leaves_registry [OF F I, of "Suc (Suc 0)" 0 "Cls ''Service''"]
      get_leaves_registry [OF F I, of "Suc (Suc 0)" 0 "Cls ''Tree''"]
    by simp
qed

subsection \<open>Singletons\<close>

lemma register_other_singleton:
  "reg_key r \<noteq> K \<Longrightarrow> singletons (register C r) K = singletons C K"
  by (cases r) (simp_all add: register_singleton_def register_transient_def register_instance_def)

lemma run_singleton:
  "singletons (fst s) K = Some V \<Longrightarrow> \<forall>op\<in>set ops. unrelated K op \<Longrightarrow>
   fst (run d P ops s) = map (\<lambda>op. Inr V) (filter is_resolve ops)"
proof (induction ops arbitrary: s)
  case Nil
  then show ?case by simp
next
  case (Cons op ops)
  show ?case
  proof (cases op)
    case (Register r)
    with Cons.prems have "singletons (fst (register (fst s) r, snd s)) K = Some V"
      by (simp add: register_other_singleton)
    with Cons Register show ?thesis by simp
  next
    case (Resolve k)
    with Cons.prems have g: "get d P s K = (Inr V, s)" and k: "k = K"
      by (simp_all add: get.simps)
    from Cons have "fst (run d P ops s) = map (\<lambda>op. Inr V) (filter is_resolve ops)" by simp
    with g k Resolve show ?thesis by (auto split: prod.splits)
  qed
qed

text \<open>
  Claim C4. After \<^verbatim>\<open>register_singleton(K, V)\<close>, every \<^verbatim>\<open>get(K)\<close> returns \<open>V\<close> itself:
  in any script that from then on looks \<open>K\<close> up, any number of times, and registers
  under other keys in between, each lookup gives \<open>V\<close>.
\<close>

theorem singleton_returned_every_time:
  assumes "\<forall>op\<in>set ops. unrelated K op"
  shows "fst (run d P ops (register_singleton C K V, w)) = map (\<lambda>op. Inr V) (filter is_resolve ops)"
  using run_singleton [OF _ assms, of "(register_singleton C K V, w)" V d P]
  by (simp add: register_singleton_def)

theorem singleton_returned_every_time_witness:
  "fst (run (Suc 0) ex_program
     [Resolve (Tag ''db''), Register (RegisterInstance (Tag ''cache'') (IntVal 2)),
      Register (RegisterTransient (Cls ''Repo'') 0), Resolve (Tag ''db''),
      Register (RegisterSingleton (Tag ''log'') (IntVal 3)), Resolve (Tag ''db'')]
     (register_singleton new_container (Tag ''db'') (IntVal 1), 0))
   = [Inr (IntVal 1), Inr (IntVal 1), Inr (IntVal 1)]"
  using singleton_returned_every_time [of
      "[Resolve (Tag ''db''), Register (RegisterInstance (Tag ''cache'') (IntVal 2)),
        Register (RegisterTransient (Cls ''Repo'') 0), Resolve (Tag ''db''),
        Register (RegisterSingleton (Tag ''log'') (IntVal 3)), Resolve (Tag ''db'')]"
      "Tag ''db''" "Suc 0" ex_program new_container "IntVal 1" 0]
  by simp

subsection \<open>Registering the same key again\<close>

text \<open>
  Against claim C2, as stated: the container keeps three dictionaries, and a registration
  writes to one of them only. After \<^verbatim>\<open>register_singleton(db, 1)\<close> and then
  \<^verbatim>\<open>register_instance(db, 2)\<close> the key has two registrations at once, and
  \<^verbatim>\<open>get(db)\<close> returns 1, not the value registered last.
\<close>

theorem last_write_counterexample:
  "singletons (register_instance (register_singleton new_container (Tag ''db'') (IntVal 1))
       (Tag ''db'') (IntVal 2)) (Tag ''db'') = Some (IntVal 1) \<and>
   services (register_instance (register_singleton new_container (Tag ''db'') (IntVal 1))
       (Tag ''db'') (IntVal 2)) (Tag ''db'') = Some (IntVal 2) \<and>
   fst (run (Suc 0) ex_program
     [Register (RegisterSingleton (Tag ''db'') (IntVal 1)),
      Register (RegisterInstance (Tag ''db'') (IntVal 2)),
      Resolve (Tag ''db'')] (new_container, 0)) = [Inr (IntVal 1)]"
  by (simp add: ex_defs)

text \<open>
  Claim C2, amended. Each dictionary holds at most one entry per key: a registration
  replaces the entry the key had in the dictionary of its own variant and leaves the other
  two dictionaries as they are. \<^verbatim>\<open>get(K)\<close> gives the value registered last by
  \<^verbatim>\<open>register_singleton\<close> whatever else \<open>K\<close> holds, by \<^verbatim>\<open>register_instance\<close> when \<open>K\<close>
  has no singleton, and calls the factory registered last by \<^verbatim>\<open>register_transient\<close>
  when \<open>K\<close> has neither. In particular, after \<^verbatim>\<open>register_singleton(K, A)\<close> and then
  \<^verbatim>\<open>register_singleton(K, B)\<close>, \<^verbatim>\<open>get(K)\<close> returns \<open>B\<close>.
\<close>

theorem overwrite_within_variant:
  "register_singleton (register_singleton C K A) K B = register_singleton C K B \<and>
   register_instance (register_instance C K A) K B = register_instance C K B \<and>
   register_transient (register_transient C K F) K G = register_transient C K G \<and>
   services (register_singleton C K B) = services C \<and>
   factories (register_singleton C K B) = factories C \<and>
   singletons (register_instance C K B) = singletons C \<and>
   factories (register_instance C K B) = factories C \<and>
   singletons (register_transient C K G) = singletons C \<and>
   services (register_transient C K G) = services C \<and>
   get d P (register_singleton C K B, w) K = (Inr B, (register_singleton C K B, w)) \<and>
   (singletons C K = None \<longrightarrow>
      get d P (register_instance C K B, w) K = (Inr B, (register_instance C K B, w))) \<and>
   (singletons C K = None \<and> services C K = None \<longrightarrow>
      get d P (register_transient C K G, w) K = callables P G (register_transient C K G, w)) \<and>
   get d P (register_singleton (register_singleton C K A) K B, w) K =
     (Inr B, (register_singleton (register_singleton C K A) K B, w))"
  by (simp add: register_singleton_def register_instance_def register_transient_def get.simps)

theorem overwrite_within_variant_witness:
  "fst (get (Suc 0) ex_program
     (register_singleton (register_singleton new_container (Tag ''db'') (IntVal 1)) (Tag ''db'') (IntVal 2), 0)
     (Tag ''db'')) = Inr (IntVal 2) \<and>
   fst (get (Suc 0) ex_program
     (register_instance (register_transient new_container (Tag ''db'') 0) (Tag ''db'') (IntVal 2), 0)
     (Tag ''db'')) = Inr (IntVal 2) \<and>
   fst (get (Suc 0) ex_program
     (register_transient (register_transient new_container (Tag ''db'') 1) (Tag ''db'') 0, 5)
     (Tag ''db'')) = Inr (IntVal 5)"
proof -
  let ?C = "register_transient new_container (Tag ''db'') 0"
  let ?D = "register_transient new_container (Tag ''db'') 1"
  have 1: "singletons ?C (Tag ''db'') = None" by (simp add: ex_defs)
  have 2: "singletons ?D (Tag ''db'') = None \<and> services ?D (Tag ''db'') = None"
    by (simp add: ex_defs)
  have 3: "fst (callables ex_program 0 s) = Inr (IntVal (int (snd s)))" for s
    by (simp add: ex_program_def counter_def)
  show ?thesis
    using overwrite_within_variant [of new_container "Tag ''db''" "IntVal 1" "IntVal 2" _ _ "Suc 0" ex_program 0]
      overwrite_within_variant [of ?C "Tag ''db''" _ "IntVal 2" _ _ "Suc 0" ex_program 0]
      overwrite_within_variant [of ?D "Tag ''db''" _ _ _ 0 "Suc 0" ex_program 5]
      1 2 3
    by simp
qed

subsection \<open>Factories\<close>

text \<open>
  Against claim C5, as stated: a key registered with \<^verbatim>\<open>register_transient\<close> that also
  has a singleton is served from the singleton dictionary. Two lookups return the
  singleton twice and the factory is never called (the state still counts 0 calls),
  where two calls of the factory would have returned 0 and 1.
\<close>

theorem transient_counterexample:
  "run (Suc 0) ex_program
     [Register (RegisterSingleton (Tag ''db'') (IntVal 7)),
      Register (RegisterTransient (Tag ''db'') 0),
      Resolve (Tag ''db''), Resolve (Tag ''db'')] (new_container, 0)
   = ([Inr (IntVal 7), Inr (IntVal 7)],
      (register_transient (register_singleton new_container (Tag ''db'') (IntVal 7)) (Tag ''db'') 0, 0)) \<and>
   call_n (Suc (Suc 0)) (callables ex_program 0)
      (register_transient (register_singleton new_container (Tag ''db'') (IntVal 7)) (Tag ''db'') 0, 0)
   = ([Inr (IntVal 0), Inr (IntVal 1)],
      (register_transient (register_singleton new_container (Tag ''db'') (IntVal 7)) (Tag ''db'') 0, 2))"
  by (simp add: ex_defs)

lemma run_factory:
  assumes L: "leaves_container (callables P F)"
  shows "singletons (fst s) K = None \<Longrightarrow> services (fst s) K = None \<Longrightarrow>
         factories (fst s) K = Some F \<Longrightarrow>
         run d P (replicate n (Resolve K)) s = call_n n (callables P F) s"
proof (induction n arbitrary: s)
  case 0
  then show ?case by simp
next
  case (Suc n)
  obtain r s' where c: "callables P F s = (r, s')" by (cases "callables P F s")
  with L have "fst s' = fst s" using leavesD [of "callables P F" s] by simp
  with Suc have "run d P (replicate n (Resolve K)) s' = call_n n (callables P F) s'" by simp
  moreover from Suc.prems have "get d P s K = callables P F s" by (simp add: get.simps)
  ultimately show ?case using c by simp
qed

text \<open>
  Claim C5, amended. For a key \<open>K\<close> registered with \<^verbatim>\<open>register_transient(K, F)\<close> that
  has no singleton and no instance, \<^verbatim>\<open>get(K)\<close> is one call of \<open>F\<close>, on the current
  state: it returns what that call returns and stores nothing. If \<open>F\<close> leaves the
  container alone, \<open>n\<close> lookups in a row are \<open>n\<close> calls of \<open>F\<close> in a row.
\<close>

theorem transient_called_each_time:
  assumes "singletons C K = None" and "services C K = None"
  shows "get d P (register_transient C K F, w) K = callables P F (register_transient C K F, w) \<and>
         (leaves_container (callables P F) \<longrightarrow>
            run d P (replicate n (Resolve K)) (register_transient C K F, w)
            = call_n n (callables P F) (register_transient C K F, w))"
proof -
  have f: "singletons (register_transient C K F) K = None"
    "services (register_transient C K F) K = None"
    "factories (register_transient C K F) K = Some F"
    using assms by (simp_all add: register_transient_def)
  then have "get d P (register_transient C K F, w) K = callables P F (register_transient C K F, w)"
    by (simp add: get.simps)
  moreover have "run d P (replicate n (Resolve K)) (register_transient C K F, w)
            = call_n n (callables P F) (register_transient C K F, w)"
    if "leaves_container (callables P F)"
    using run_factory [OF that, of "(register_transient C K F, w)" K d n] f by simp
  ultimately show ?thesis by blast
qed

theorem transient_called_each_time_witness:
  "get (Suc 0) ex_program (register_transient new_container (Tag ''id'') 0, 0) (Tag ''id'')
   = (Inr (IntVal 0), (register_transient new_container (Tag ''id'') 0, 1)) \<and>
   run (Suc 0) ex_program [Resolve (Tag ''id''), Resolve (Tag ''id''), Resolve (Tag ''id'')]
     (register_transient new_container (Tag ''id'') 0, 0)
   = ([Inr (IntVal 0), Inr (IntVal 1), Inr (IntVal 2)],
      (register_transient new_container (Tag ''id'') 0, 3))"
proof -
  let ?C = "register_transient new_container (Tag ''id'') 0"
  have n: "singletons new_container (Tag ''id'') = None" "services new_container (Tag ''id'') = None"
    by (simp_all add: new_container_def)
  have c: "call_n (Suc (Suc (Suc 0))) (callables ex_program 0) (C, 0)
     = ([Inr (IntVal 0), Inr (IntVal 1), Inr (IntVal 2)], (C, 3))" for C
    by (simp add: ex_program_def counter_def)
  have c1: "callables ex_program 0 (C, 0) = (Inr (IntVal 0), (C, 1))" for C
    by (simp add: ex_program_def counter_def)
  have r: "replicate (Suc (Suc (Suc 0))) (Resolve (Tag ''id''))
     = [Resolve (Tag ''id''), Resolve (Tag ''id''), Resolve (Tag ''id'')]"
    by simp
  from transient_called_each_time [OF n, of "Suc 0" ex_program 0 0 "Suc (Suc (Suc 0))"]
    ex_callables_leave [of 0]
  have g: "get (Suc 0) ex_program (?C, 0) (Tag ''id'') = callables ex_program 0 (?C, 0)"
    and rr: "run (Suc 0) ex_program (replicate (Suc (Suc (Suc 0))) (Resolve (Tag ''id''))) (?C, 0)
       = call_n (Suc (Suc (Suc 0))) (callables ex_program 0) (?C, 0)"
    by blast+
  from rr have rr': "run (Suc 0) ex_program
       [Resolve (Tag ''id''), Resolve (Tag ''id''), Resolve (Tag ''id'')] (?C, 0)
       = call_n (Suc (Suc (Suc 0))) (callables ex_program 0) (?C, 0)"
    by (simp only: r)
  show ?thesis
    by (simp only: g rr' c c1 simp_thms)
qed

subsection \<open>Auto-wiring\<close>

lemma get_singleton: "singletons (fst s) t = Some v \<Longrightarrow> get d P s t = (Inr v, s)"
  by (simp add: get.simps)

lemma get_unregistered_class:
  "unregistered (fst s) (Cls c) \<Longrightarrow> get d P s (Cls c) = auto_wire d P s c"
  by (simp add: get.simps unregistered_def)

text \<open>
  Against claim C6, as stated: \<^verbatim>\<open>Labelled.__init__(self, repo: Repo, label: Label)\<close> has
  a parameter of type \<^verbatim>\<open>Repo\<close>, and \<^verbatim>\<open>Repo\<close> is registered as a singleton; yet
  \<^verbatim>\<open>get(Labelled)\<close> returns no instance. The loop goes on to \<^verbatim>\<open>label\<close>, whose type is
  neither registered nor a class, and that failure ends the call.
\<close>

theorem other_parameter_counterexample:
  "unregistered (register_singleton new_container (Cls ''Repo'') (StrVal ''the repo''))
     (Cls ''Labelled'') \<and>
   (''repo'', POSITIONAL_OR_KEYWORD, None) \<in> set (parameters (class_table ex_program ''Labelled'')) \<and>
   type_hints (class_table ex_program ''Labelled'') ''repo'' = Some (Cls ''Repo'') \<and>
   singletons (register_singleton new_container (Cls ''Repo'') (StrVal ''the repo''))
     (Cls ''Repo'') = Some (StrVal ''the repo'') \<and>
   get (Suc (Suc 0)) ex_program
     (register_singleton new_container (Cls ''Repo'') (StrVal ''the repo''), 0) (Cls ''Labelled'')
   = (Inl (FailedToAutoWire ''Labelled'' (NoRegistrationFound (Tag ''Label''))),
      (register_singleton new_container (Cls ''Repo'') (StrVal ''the repo''), 0))"
  by (simp add: unregistered_def ex_defs)

lemma build_kwargs_singletons:
  "\<forall>t\<in>set (wired th ps). singletons (fst s) t \<noteq> None \<Longrightarrow>
   \<exists>kw'. build_kwargs d P th ps kw s = (Inr kw', s)"
proof (induction ps arbitrary: kw)
  case Nil
  then show ?case by simp
next
  case (Cons p ps)
  show ?case
  proof (cases "fst p = ''self'' \<or> th (fst p) = None")
    case True
    with Cons.prems have "\<forall>t\<in>set (wired th ps). singletons (fst s) t \<noteq> None" by auto
    from Cons.IH [OF this, of kw] True show ?thesis by auto
  next
    case False
    then obtain t where t: "th (fst p) = Some t" and ns: "fst p \<noteq> ''self''" by auto
    with Cons.prems obtain v where v: "singletons (fst s) t = Some v" by auto
    from t ns Cons.prems have "\<forall>t\<in>set (wired th ps). singletons (fst s) t \<noteq> None" by auto
    from Cons.IH [OF this, of "AList.update (fst p) v kw"] t ns v show ?thesis
      by (simp add: get_singleton)
  qed
qed

lemma build_kwargs_passes:
  assumes F: "\<forall>f\<in>ran (factories C). leaves_container (callables P f)"
    and I: "\<forall>c kw. leaves_container (init (class_table P c) kw)"
    and U: "singletons C U = Some u" and H: "th p = Some U" and N: "p \<noteq> ''self''"
  shows "build_kwargs d P th ps kw0 s = (Inr kw, s1) \<Longrightarrow> fst s = C \<Longrightarrow>
         map_of kw p = (if p \<in> fst ` set ps then Some u else map_of kw0 p)"
proof (induction ps arbitrary: kw0 s)
  case Nil
  then show ?case by simp
next
  case (Cons q ps)
  show ?case
  proof (cases "fst q = ''self'' \<or> th (fst q) = None")
    case True
    with Cons.prems(1) have b: "build_kwargs d P th ps kw0 s = (Inr kw, s1)"
      by (auto split: if_splits)
    from True H N have "fst q \<noteq> p" by auto
    with Cons.IH [OF b Cons.prems(2)] show ?thesis by simp
  next
    case False
    then obtain t where t: "th (fst q) = Some t" and ns: "fst q \<noteq> ''self''" by auto
    with Cons.prems(1) obtain v s' where g: "get d P s t = (Inr v, s')"
      and b: "build_kwargs d P th ps (AList.update (fst q) v kw0) s' = (Inr kw, s1)"
      by (auto split: prod.splits sum.splits)
    have s': "fst s' = C"
      using frame_aux(1) [OF F I Cons.prems(2), of d t] g by simp
    from Cons.IH [OF b s']
    have m: "map_of kw p
        = (if p \<in> fst ` set ps then Some u else map_of (AList.update (fst q) v kw0) p)" .
    show ?thesis
    proof (cases "fst q = p")
      case True
      with t H have "t = U" by simp
      with U Cons.prems(2) g have "v = u" by (simp add: get_singleton)
      with m True show ?thesis by (simp add: update_conv')
    next
      case False
      with m show ?thesis by (simp add: update_conv')
    qed
  qed
qed

lemma map_filter_empty: "List.map_filter f xs = [] \<longleftrightarrow> (\<forall>x\<in>set xs. f x = None)"
  by (induction xs) (auto simp: List.map_filter_simps split: option.splits)

lemma concat_lookup:
  assumes K: "\<forall>q. \<forall>a\<in>set (g q). fst a = fst q"
  shows "distinct (map fst qs) \<Longrightarrow> q0 \<in> set qs \<Longrightarrow> g q0 = [(fst q0, u)] \<Longrightarrow>
         map_of (concat (map g qs)) (fst q0) = Some u"
proof (induction qs)
  case Nil
  then show ?case by simp
next
  case (Cons q qs)
  show ?case
  proof (cases "q = q0")
    case True
    with Cons.prems(3) show ?thesis by simp
  next
    case False
    with Cons.prems have q0: "q0 \<in> set qs" and ne: "fst q \<noteq> fst q0" by force+
    from K ne have "fst q0 \<notin> fst ` set (g q)" by (metis imageE)
    then have "map_of (g q) (fst q0) = None" by (simp add: map_of_eq_None_iff)
    moreover from Cons.IH Cons.prems(1,3) q0
    have "map_of (concat (map g qs)) (fst q0) = Some u" by simp
    ultimately show ?thesis by (simp add: map_add_def)
  qed
qed

lemma bound_args_lookup:
  assumes "distinct (map fst ps)" and "(p, k, d) \<in> set ps" and "takes_keyword k"
    and "map_of kw p = Some u"
  shows "map_of (bound_args ps kw) p = Some u"
proof -
  let ?g = "\<lambda>p. if fst (snd p) = VAR_POSITIONAL then [(fst p, TupleVal [])]
       else if fst (snd p) = VAR_KEYWORD
       then [(fst p, DictVal (filter (\<lambda>a. fst a \<notin> set (keyword_names ps)) kw))]
       else (case argument kw p of Some v \<Rightarrow> [(fst p, v)] | None \<Rightarrow> [])"
  have K: "\<forall>q. \<forall>a\<in>set (?g q). fst a = fst q"
    by (auto split: option.splits)
  from assms(3,4) have "?g (p, k, d) = [(fst (p, k, d), u)]"
    by (cases k) (simp_all add: argument_def)
  from concat_lookup [of ?g, OF K assms(1,2) this] show ?thesis
    by (simp add: bound_args_def)
qed

lemma after_receiver_suffix: "after_receiver qs = Inr ps \<Longrightarrow> ps = qs \<or> ps = tl qs"
  by (cases qs) (auto split: if_splits)

lemma after_receiver_mem:
  "after_receiver qs = Inr ps \<Longrightarrow> x \<in> set qs \<Longrightarrow> x \<notin> set ps \<Longrightarrow>
   qs = x # tl qs \<and> (fst (snd x) = POSITIONAL_ONLY \<or> fst (snd x) = POSITIONAL_OR_KEYWORD)"
  by (cases qs) (auto split: if_splits)

lemma call_cls_binds:
  assumes c: "call_cls decl kw s1 = (Inr v, s2)"
    and D: "distinct (map fst (parameters decl))"
    and p: "(p, k, dflt) \<in> set (parameters decl)" and k: "takes_keyword k"
    and m: "map_of kw p = Some u"
  shows "\<exists>args. map_of args p = Some u \<and> init decl args s1 = (Inr v, s2)"
proof -
  let ?qs = "parameters decl"
  from c have ke: "keyword_errors ?qs kw = []"
    by (auto simp: call_cls_def split: list.splits)
  with c obtain ps where ar: "after_receiver ?qs = Inr ps"
    by (auto simp: call_cls_def split: sum.splits)
  with c ke have i: "init decl (bound_args ps kw) s1 = (Inr v, s2)"
    by (auto simp: call_cls_def split: if_splits)
  from m have "p \<in> set (map fst kw)" by (force dest: map_of_SomeD)
  with ke have "refused ?qs kw p = None"
    by (auto simp: keyword_errors_def map_filter_empty)
  then have nr: "p \<notin> set (taken_by_receiver ?qs)"
    by (auto simp: refused_def split: if_splits)
  have pin: "(p, k, dflt) \<in> set ps"
  proof (rule ccontr)
    assume "(p, k, dflt) \<notin> set ps"
    from after_receiver_mem [OF ar p this] k
    have "?qs = (p, k, dflt) # tl ?qs" and "k = POSITIONAL_OR_KEYWORD"
      by auto
    then have "taken_by_receiver ?qs = [p]"
      by (metis taken_by_receiver.simps(2))
    with nr show False by simp
  qed
  from after_receiver_suffix [OF ar] D have "distinct (map fst ps)"
    by (auto simp: distinct_tl map_tl)
  from bound_args_lookup [OF this pin k m] i show ?thesis by blast
qed

text \<open>
  Claim C6, amended. Let \<open>T\<close> be a class in none of the dictionaries whose constructor
  has a parameter \<open>p\<close> with type hint \<open>U\<close>, and let \<open>U\<close> be registered as a singleton \<open>u\<close>.
  If every hinted parameter of the constructor resolves, if the constructor call with
  the resolved arguments returns, and if no factory or constructor registers anything
  meanwhile, then that call passes \<open>u\<close> under the keyword \<open>p\<close> and \<^verbatim>\<open>get(T)\<close> returns
  the instance it built; the body of \<^verbatim>\<open>__init__\<close> ran with \<open>p\<close> bound to \<open>u\<close>, \<open>p\<close> being
  a parameter that can be passed by keyword. The hinted parameters do all resolve,
  leaving the state as it is, when each of their types is registered as a singleton.
\<close>

theorem auto_wire_passes_singleton:
  assumes "unregistered C (Cls T)"
    and "(p, kd) \<in> set (parameters (class_table P T))" and "p \<noteq> ''self''"
    and "type_hints (class_table P T) p = Some U" and "singletons C U = Some u"
    and "\<forall>f\<in>ran (factories C). leaves_container (callables P f)"
    and "\<forall>c kw. leaves_container (init (class_table P c) kw)"
  shows
    "(build_kwargs d P (type_hints (class_table P T)) (parameters (class_table P T)) [] (C, w)
        = (Inr kw, s1) \<and>
      call_cls (class_table P T) kw s1 = (Inr v, s2) \<longrightarrow>
        map_of kw p = Some u \<and> get (Suc d) P (C, w) (Cls T) = (Inr v, s2) \<and>
        (distinct (map fst (parameters (class_table P T))) \<and> takes_keyword (fst kd) \<longrightarrow>
           (\<exists>args. map_of args p = Some u \<and>
              init (class_table P T) args s1 = (Inr v, s2)))) \<and>
     ((\<forall>t\<in>set (wired_types P T). singletons C t \<noteq> None) \<longrightarrow>
        (\<exists>kw'. build_kwargs d P (type_hints (class_table P T)) (parameters (class_table P T)) []
                 (C, w) = (Inr kw', (C, w))))"
proof -
  let ?decl = "class_table P T"
  from assms(2) have pin: "p \<in> fst ` set (parameters ?decl)" by force
  have 1: "map_of kw p = Some u \<and> get (Suc d) P (C, w) (Cls T) = (Inr v, s2) \<and>
      (distinct (map fst (parameters ?decl)) \<and> takes_keyword (fst kd) \<longrightarrow>
         (\<exists>args. map_of args p = Some u \<and> init ?decl args s1 = (Inr v, s2)))"
    if b: "build_kwargs d P (type_hints ?decl) (parameters ?decl) [] (C, w) = (Inr kw, s1)"
      and c: "call_cls ?decl kw s1 = (Inr v, s2)"
  proof -
    from build_kwargs_passes [OF assms(6,7,5,4,3) b] pin have m: "map_of kw p = Some u" by simp
    from assms(1) b c have g: "get (Suc d) P (C, w) (Cls T) = (Inr v, s2)"
      by (simp add: get_unregistered_class reraise_def)
    have "\<exists>args. map_of args p = Some u \<and> init ?decl args s1 = (Inr v, s2)"
      if D: "distinct (map fst (parameters ?decl))" and k: "takes_keyword (fst kd)"
    proof -
      from assms(2) have "(p, fst kd, snd kd) \<in> set (parameters ?decl)" by simp
      from call_cls_binds [OF c D this k m] show ?thesis .
    qed
    with m g show ?thesis by blast
  qed
  have 2: "\<exists>kw'. build_kwargs d P (type_hints ?decl) (parameters ?decl) [] (C, w)
      = (Inr kw', (C, w))"
    if "\<forall>t\<in>set (wired_types P T). singletons C t \<noteq> None"
  proof -
    from that have "\<forall>t\<in>set (wired (type_hints ?decl) (parameters ?decl)).
        singletons (fst (C, w)) t \<noteq> None"
      by (simp add: wired_types_def)
    from build_kwargs_singletons [OF this] show ?thesis by blast
  qed
  from 1 2 show ?thesis by blast
qed

theorem auto_wire_passes_singleton_witness:
  "map_of [(''repo'', StrVal ''the repo'')] ''repo'' = Some (StrVal ''the repo'') \<and>
   get (Suc 0) ex_program (register_singleton new_container (Cls ''Repo'') (StrVal ''the repo''), 0)
     (Cls ''Service'')
   = (Inr (Instance ''Service'' [(''repo'', StrVal ''the repo'')]),
      (register_singleton new_container (Cls ''Repo'') (StrVal ''the repo''), 0)) \<and>
   (\<exists>args. map_of args ''repo'' = Some (StrVal ''the repo'') \<and>
      init (class_table ex_program ''Service'') args
        (register_singleton new_container (Cls ''Repo'') (StrVal ''the repo''), 0)
      = (Inr (Instance ''Service'' [(''repo'', StrVal ''the repo'')]),
         (register_singleton new_container (Cls ''Repo'') (StrVal ''the repo''), 0))) \<and>
   (\<exists>kw'. build_kwargs 0 ex_program (type_hints (class_table ex_program ''Service''))
       (parameters (class_table ex_program ''Service'')) []
       (register_singleton new_container (Cls ''Repo'') (StrVal ''the repo''), 0)
     = (Inr kw', (register_singleton new_container (Cls ''Repo'') (StrVal ''the repo''), 0)))"
proof -
  let ?C = "register_singleton new_container (Cls ''Repo'') (StrVal ''the repo'')"
  let ?decl = "class_table ex_program ''Service''"
  have 1: "unregistered ?C (Cls ''Service'')"
    by (simp add: unregistered_def ex_defs)
  have 2: "(''repo'', POSITIONAL_OR_KEYWORD, None) \<in> set (parameters ?decl)"
    by (simp add: ex_defs)
  have 3: "''repo'' \<noteq> ''self''" by simp
  have 4: "type_hints ?decl ''repo'' = Some (Cls ''Repo'')"
    by (simp add: ex_defs)
  have 5: "singletons ?C (Cls ''Repo'') = Some (StrVal ''the repo'')"
    by (simp add: ex_defs)
  have 6: "\<forall>f\<in>ran (factories ?C). leaves_container (callables ex_program f)"
    by (simp add: ex_callables_leave)
  have 7: "\<forall>c kw. leaves_container (init (class_table ex_program c) kw)"
    by (simp add: ex_init_leaves)
  have 8: "build_kwargs 0 ex_program (type_hints ?decl) (parameters ?decl) [] (?C, 0)
      = (Inr [(''repo'', StrVal ''the repo'')], (?C, 0))"
    by (simp add: ex_defs)
  have 9: "call_cls ?decl [(''repo'', StrVal ''the repo'')] (?C, 0)
      = (Inr (Instance ''Service'' [(''repo'', StrVal ''the repo'')]), (?C, 0))"
    by (simp add: ex_defs)
  have 10: "\<forall>t\<in>set (wired_types ex_program ''Service''). singletons ?C t \<noteq> None"
    by (simp add: wired_types_def ex_defs)
  have 11: "distinct (map fst (parameters ?decl))"
    and 12: "takes_keyword (fst (POSITIONAL_OR_KEYWORD, None::pyval option))"
    by (simp_all add: ex_defs)
  note inst = auto_wire_passes_singleton [OF 1 2 3 4 5 6 7,
      where d = 0 and w = 0 and kw = "[(''repo'', StrVal ''the repo'')]" and ?s1.0 = "(?C, 0)"
        and v = "Instance ''Service'' [(''repo'', StrVal ''the repo'')]" and ?s2.0 = "(?C, 0)"]
  from inst 8 9 have a: "map_of [(''repo'', StrVal ''the repo'')] ''repo'' = Some (StrVal ''the repo'')"
    and b: "get (Suc 0) ex_program (?C, 0) (Cls ''Service'')
      = (Inr (Instance ''Service'' [(''repo'', StrVal ''the repo'')]), (?C, 0))"
    by blast+
  from inst 8 9 11 12 have c: "\<exists>args. map_of args ''repo'' = Some (StrVal ''the repo'') \<and>
      init ?decl args (?C, 0)
      = (Inr (Instance ''Service'' [(''repo'', StrVal ''the repo'')]), (?C, 0))"
    by blast
  from inst 10 have d: "\<exists>kw'. build_kwargs 0 ex_program (type_hints ?decl) (parameters ?decl) []
      (?C, 0) = (Inr kw', (?C, 0))"
    by blast
  from a b c d show ?thesis by (intro conjI)
qed

text \<open>
  Against claim C7, as stated: a parameter without a declared type is skipped by the
  loop, not refused. \<^verbatim>\<open>Opt.__init__(self, x=5)\<close> has such a parameter, and
  \<^verbatim>\<open>get(Opt)\<close> returns an instance, built with the default. \<^verbatim>\<open>Plain\<close> has no
  \<^verbatim>\<open>__init__\<close> of its own, so its signature has \<^verbatim>\<open>*args\<close> and \<^verbatim>\<open>**kwargs\<close>, without
  types and without defaults, and \<^verbatim>\<open>get(Plain)\<close> returns an instance too.
\<close>

theorem untyped_parameter_counterexample:
  "parameters (class_table ex_program ''Opt'')
   = [(''self'', POSITIONAL_OR_KEYWORD, None), (''x'', POSITIONAL_OR_KEYWORD, Some (IntVal 5))] \<and>
   type_hints (class_table ex_program ''Opt'') ''x'' = None \<and>
   unregistered new_container (Cls ''Opt'') \<and>
   get (Suc 0) ex_program (new_container, 0) (Cls ''Opt'')
   = (Inr (Instance ''Opt'' [(''x'', IntVal 5)]), (new_container, 0)) \<and>
   parameters (class_table ex_program ''Plain'')
   = [(''self'', POSITIONAL_ONLY, None), (''args'', VAR_POSITIONAL, None),
      (''kwargs'', VAR_KEYWORD, None)] \<and>
   type_hints (class_table ex_program ''Plain'') ''args'' = None \<and>
   type_hints (class_table ex_program ''Plain'') ''kwargs'' = None \<and>
   get (Suc 0) ex_program (new_container, 0) (Cls ''Plain'')
   = (Inr (Instance ''Plain'' []), (new_container, 0))"
  by (simp add: unregistered_def ex_defs)

lemma build_kwargs_append:
  "build_kwargs d P th (pre @ post) kw s =
     (case build_kwargs d P th pre kw s of
        (Inl e, s') \<Rightarrow> (Inl e, s')
      | (Inr kw', s') \<Rightarrow> build_kwargs d P th post kw' s')"
  by (induction pre arbitrary: kw s) (auto split: prod.splits sum.splits option.splits)

lemma build_kwargs_untyped:
  "build_kwargs d P th ps kw s = (Inr kw', s') \<Longrightarrow> th p = None \<Longrightarrow> map_of kw' p = map_of kw p"
proof (induction ps arbitrary: kw s)
  case Nil
  then show ?case by simp
next
  case (Cons a ps)
  show ?case
  proof (cases "fst a = ''self'' \<or> th (fst a) = None")
    case True
    with Cons.prems have "build_kwargs d P th ps kw s = (Inr kw', s')"
      by (auto split: if_splits)
    from Cons.IH [OF this Cons.prems(2)] show ?thesis .
  next
    case False
    then obtain t where t: "th (fst a) = Some t" and ns: "fst a \<noteq> ''self''" by auto
    with Cons.prems obtain v s1 where g: "get d P s t = (Inr v, s1)"
      and b: "build_kwargs d P th ps (AList.update (fst a) v kw) s1 = (Inr kw', s')"
      by (auto split: prod.splits sum.splits)
    from Cons.IH [OF b Cons.prems(2)] have "map_of kw' p = map_of (AList.update (fst a) v kw) p" .
    moreover from t Cons.prems(2) have "fst a \<noteq> p" by auto
    ultimately show ?thesis by (simp add: update_conv')
  qed
qed

lemma build_kwargs_skips:
  "build_kwargs d P th ps kw s
   = build_kwargs d P th (filter (\<lambda>q. th (fst q) \<noteq> None) ps) kw s"
proof (induction ps arbitrary: kw s)
  case Nil
  then show ?case by simp
next
  case (Cons a ps)
  show ?case
  proof (cases "th (fst a)")
    case None
    with Cons.IH [of kw s] show ?thesis by simp
  next
    case (Some t)
    show ?thesis
    proof (cases "fst a = ''self''")
      case True
      with Some Cons.IH [of kw s] show ?thesis by simp
    next
      case False
      obtain r s1 where g: "get d P s t = (r, s1)" by (cases "get d P s t")
      show ?thesis
      proof (cases r)
        case (Inl e)
        with Some False g show ?thesis by simp
      next
        case (Inr v)
        with Some False g Cons.IH [of "AList.update (fst a) v kw" s1] show ?thesis by simp
      qed
    qed
  qed
qed

lemma after_receiver_tail: "after_receiver qs = Inr ps \<Longrightarrow> set (tl qs) \<subseteq> set ps"
  by (cases qs) (auto split: if_splits)

lemma call_cls_missing:
  assumes p: "(p, k, None) \<in> set (tl (parameters decl))"
    and k: "k = POSITIONAL_ONLY \<or> k = POSITIONAL_OR_KEYWORD \<or> k = KEYWORD_ONLY"
    and m: "map_of kw p = None"
  shows "\<exists>t. call_cls decl kw s = (Inl (TypeError t), s)"
proof (cases "after_receiver (parameters decl)")
  case (Inl t)
  then show ?thesis by (simp add: call_cls_def split: list.splits)
next
  case (Inr ps)
  with p have pin: "(p, k, None) \<in> set ps" using after_receiver_tail by blast
  from m have a: "argument kw (p, k, None) = None" by (simp add: argument_def)
  have "missing_args ps kw \<noteq> []"
  proof (cases "k = KEYWORD_ONLY")
    case True
    with pin a have "p \<in> set (missing_keyword_only ps kw)"
      by (force simp: missing_keyword_only_def)
    then have "missing_keyword_only ps kw \<noteq> []" by auto
    then show ?thesis by (simp add: missing_args_def)
  next
    case False
    with k pin a have "p \<in> set (missing_positional ps kw)"
      by (force simp: missing_positional_def)
    then have "missing_positional ps kw \<noteq> []" by auto
    then show ?thesis by (simp add: missing_args_def)
  qed
  with Inr show ?thesis by (simp add: call_cls_def split: list.splits)
qed

text \<open>
  Claim C7, amended. When \<^verbatim>\<open>get\<close> auto-wires a class \<open>T\<close> that is in none of the
  dictionaries, it fails with \<^verbatim>\<open>ValueError("Failed to auto-wire ...")\<close> around the cause
  \<^item> if a parameter after the receiver that the call has to supply (positional or
    keyword-only, so not \<^verbatim>\<open>*args\<close> or \<^verbatim>\<open>**kwargs\<close>) has neither a declared type nor a
    default value;
  \<^item> if the lookup of a hinted parameter's type fails (the parameters before it having
    been resolved), the cause being that lookup's exception;
  \<^item> if the constructor call itself fails, the cause being its exception.

  A parameter without a declared type is skipped: it is not among the keyword arguments
  the constructor is called with, and the loop does what it would do on the signature
  without such parameters.
\<close>

theorem auto_wire_failures:
  assumes "unregistered C (Cls T)"
  shows
    "((p, k, None) \<in> set (tl (parameters (class_table P T))) \<and>
      (k = POSITIONAL_ONLY \<or> k = POSITIONAL_OR_KEYWORD \<or> k = KEYWORD_ONLY) \<and>
      type_hints (class_table P T) p = None \<longrightarrow>
        (\<exists>e s'. get (Suc d) P (C, w) (Cls T) = (Inl (FailedToAutoWire T e), s'))) \<and>
     (parameters (class_table P T) = pre @ (q, kd) # post \<and> q \<noteq> ''self'' \<and>
      type_hints (class_table P T) q = Some U \<and>
      build_kwargs d P (type_hints (class_table P T)) pre [] (C, w) = (Inr kw, s1) \<and>
      get d P s1 U = (Inl e1, s2) \<longrightarrow>
        get (Suc d) P (C, w) (Cls T) = (Inl (FailedToAutoWire T e1), s2)) \<and>
     (build_kwargs d P (type_hints (class_table P T)) (parameters (class_table P T)) [] (C, w)
        = (Inr kw', s3) \<and>
      call_cls (class_table P T) kw' s3 = (Inl e2, s4) \<longrightarrow>
        get (Suc d) P (C, w) (Cls T) = (Inl (FailedToAutoWire T e2), s4)) \<and>
     (type_hints (class_table P T) r = None \<and>
      build_kwargs d P (type_hints (class_table P T)) (parameters (class_table P T)) [] (C, w)
        = (Inr kw', s3) \<longrightarrow>
        map_of kw' r = None \<and>
        get (Suc d) P (C, w) (Cls T) = reraise T (call_cls (class_table P T) kw' s3)) \<and>
     build_kwargs d P (type_hints (class_table P T)) (parameters (class_table P T)) [] (C, w)
       = build_kwargs d P (type_hints (class_table P T))
           (filter (\<lambda>x. type_hints (class_table P T) (fst x) \<noteq> None) (parameters (class_table P T)))
           [] (C, w)"
proof -
  let ?decl = "class_table P T"
  let ?th = "type_hints ?decl"
  from assms have g: "get (Suc d) P (C, w) (Cls T) = auto_wire (Suc d) P (C, w) T"
    by (simp add: get_unregistered_class)
  have a: "\<exists>e s'. get (Suc d) P (C, w) (Cls T) = (Inl (FailedToAutoWire T e), s')"
    if p: "(p, k, None) \<in> set (tl (parameters ?decl))"
      and k: "k = POSITIONAL_ONLY \<or> k = POSITIONAL_OR_KEYWORD \<or> k = KEYWORD_ONLY"
      and h: "?th p = None"
  proof -
    obtain r s' where bk: "build_kwargs d P ?th (parameters ?decl) [] (C, w) = (r, s')"
      by (cases "build_kwargs d P ?th (parameters ?decl) [] (C, w)")
    show ?thesis
    proof (cases r)
      case (Inl e)
      with bk g show ?thesis by simp
    next
      case (Inr kw0)
      with bk have "map_of kw0 p = map_of [] p"
        using build_kwargs_untyped [of d P ?th "parameters ?decl" "[]" "(C, w)" kw0 s' p] h by simp
      then have "map_of kw0 p = None" by simp
      from call_cls_missing [OF p k this, of s'] obtain t where
        "call_cls ?decl kw0 s' = (Inl (TypeError t), s')"
        by blast
      with bk Inr g show ?thesis by (simp add: reraise_def)
    qed
  qed
  have b: "get (Suc d) P (C, w) (Cls T) = (Inl (FailedToAutoWire T e1), s2)"
    if "parameters ?decl = pre @ (q, kd) # post" and "q \<noteq> ''self''" and "?th q = Some U"
      and "build_kwargs d P ?th pre [] (C, w) = (Inr kw, s1)" and "get d P s1 U = (Inl e1, s2)"
  proof -
    from that have "build_kwargs d P ?th (parameters ?decl) [] (C, w) = (Inl e1, s2)"
      by (simp add: build_kwargs_append)
    with g show ?thesis by simp
  qed
  have c: "get (Suc d) P (C, w) (Cls T) = (Inl (FailedToAutoWire T e2), s4)"
    if "build_kwargs d P ?th (parameters ?decl) [] (C, w) = (Inr kw', s3)"
      and "call_cls ?decl kw' s3 = (Inl e2, s4)"
    using that g by (simp add: reraise_def)
  have s: "map_of kw' r = None \<and>
      get (Suc d) P (C, w) (Cls T) = reraise T (call_cls ?decl kw' s3)"
    if h: "?th r = None"
      and bk: "build_kwargs d P ?th (parameters ?decl) [] (C, w) = (Inr kw', s3)"
  proof -
    from build_kwargs_untyped [OF bk h] have "map_of kw' r = None" by simp
    moreover from bk g have "get (Suc d) P (C, w) (Cls T) = reraise T (call_cls ?decl kw' s3)"
      by simp
    ultimately show ?thesis by blast
  qed
  have f: "build_kwargs d P ?th (parameters ?decl) [] (C, w)
      = build_kwargs d P ?th (filter (\<lambda>x. ?th (fst x) \<noteq> None) (parameters ?decl)) [] (C, w)"
    by (rule build_kwargs_skips)
  from a b c s f show ?thesis by blast
qed

theorem auto_wire_failures_witness:
  "get (Suc 0) ex_program (new_container, 0) (Cls ''Req'')
   = (Inl (FailedToAutoWire ''Req'' (TypeError (MissingArguments [''x'']))), (new_container, 0)) \<and>
   get (Suc 0) ex_program (new_container, 0) (Cls ''Tree'')
   = (Inl (FailedToAutoWire ''Tree'' (NoRegistrationFound (Tag ''Label''))), (new_container, 0)) \<and>
   get (Suc 0) ex_program (new_container, 0) (Cls ''Broken'')
   = (Inl (FailedToAutoWire ''Broken'' (Raised ''boom'')), (new_container, 0)) \<and>
   map_of ([]::kwargs) ''x'' = None \<and>
   get (Suc 0) ex_program (new_container, 0) (Cls ''Opt'')
   = reraise ''Opt'' (call_cls (class_table ex_program ''Opt'') [] (new_container, 0)) \<and>
   get (Suc 0) ex_program (new_container, 0) (Cls ''Opt'')
   = (Inr (Instance ''Opt'' [(''x'', IntVal 5)]), (new_container, 0))"
proof -
  let ?s = "(new_container, 0::nat)"
  have u: "unregistered new_container (Cls c)" for c
    by (simp add: unregistered_def new_container_def)
  have a1: "(''x'', POSITIONAL_OR_KEYWORD, None) \<in> set (tl (parameters (class_table ex_program ''Req'')))"
    and a2: "type_hints (class_table ex_program ''Req'') ''x'' = None"
    by (simp_all add: ex_defs)
  from auto_wire_failures [OF u, where p = "''x''" and k = POSITIONAL_OR_KEYWORD
      and P = ex_program and T = "''Req''" and d = 0 and w = 0] a1 a2
  obtain e s' where a3: "get (Suc 0) ex_program ?s (Cls ''Req'') = (Inl (FailedToAutoWire ''Req'' e), s')"
    by blast
  have a4: "get (Suc 0) ex_program ?s (Cls ''Req'')
      = (Inl (FailedToAutoWire ''Req'' (TypeError (MissingArguments [''x'']))), ?s)"
    by (simp add: ex_defs)
  have b1: "parameters (class_table ex_program ''Tree'')
      = [(''self'', POSITIONAL_OR_KEYWORD, None)] @ (''label'', POSITIONAL_OR_KEYWORD, None)
          # [(''parent'', POSITIONAL_OR_KEYWORD, None)]"
    and b2: "''label'' \<noteq> ''self''"
    and b3: "type_hints (class_table ex_program ''Tree'') ''label'' = Some (Tag ''Label'')"
    and b4: "build_kwargs 0 ex_program (type_hints (class_table ex_program ''Tree''))
        [(''self'', POSITIONAL_OR_KEYWORD, None)] [] ?s = (Inr [], ?s)"
    and b5: "get 0 ex_program ?s (Tag ''Label'') = (Inl (NoRegistrationFound (Tag ''Label'')), ?s)"
    by (simp_all add: ex_defs)
  from auto_wire_failures [OF u, where P = ex_program and T = "''Tree''" and d = 0 and w = 0
      and pre = "[(''self'', POSITIONAL_OR_KEYWORD, None)]" and q = "''label''"
      and kd = "(POSITIONAL_OR_KEYWORD, None)" and post = "[(''parent'', POSITIONAL_OR_KEYWORD, None)]"
      and U = "Tag ''Label''" and kw = "[]" and ?s1.0 = ?s
      and ?e1.0 = "NoRegistrationFound (Tag ''Label'')" and ?s2.0 = ?s] b1 b2 b3 b4 b5
  have b: "get (Suc 0) ex_program ?s (Cls ''Tree'')
      = (Inl (FailedToAutoWire ''Tree'' (NoRegistrationFound (Tag ''Label''))), ?s)"
    by blast
  have c1: "build_kwargs 0 ex_program (type_hints (class_table ex_program ''Broken''))
        (parameters (class_table ex_program ''Broken'')) [] ?s = (Inr [], ?s)"
    and c2: "call_cls (class_table ex_program ''Broken'') [] ?s = (Inl (Raised ''boom''), ?s)"
    by (simp_all add: ex_defs)
  from auto_wire_failures [OF u, where P = ex_program and T = "''Broken''" and d = 0 and w = 0
      and kw' = "[]" and ?s3.0 = ?s and ?e2.0 = "Raised ''boom''" and ?s4.0 = ?s] c1 c2
  have c: "get (Suc 0) ex_program ?s (Cls ''Broken'')
      = (Inl (FailedToAutoWire ''Broken'' (Raised ''boom'')), ?s)"
    by blast
  have d1: "type_hints (class_table ex_program ''Opt'') ''x'' = None"
    and d2: "build_kwargs 0 ex_program (type_hints (class_table ex_program ''Opt''))
        (parameters (class_table ex_program ''Opt'')) [] ?s = (Inr [], ?s)"
    by (simp_all add: ex_defs)
  from auto_wire_failures [OF u, where P = ex_program and T = "''Opt''" and d = 0 and w = 0
      and r = "''x''" and kw' = "[]" and ?s3.0 = ?s] d1 d2
  have d: "map_of ([]::kwargs) ''x'' = None"
    and d': "get (Suc 0) ex_program ?s (Cls ''Opt'')
      = reraise ''Opt'' (call_cls (class_table ex_program ''Opt'') [] ?s)"
    by blast+
  have d'': "get (Suc 0) ex_program ?s (Cls ''Opt'')
      = (Inr (Instance ''Opt'' [(''x'', IntVal 5)]), ?s)"
    by (simp add: ex_defs)
  from a3 a4 b c d d' d'' show ?thesis by (intro conjI)
qed

subsection \<open>Singleton or instance\<close>

text \<open>
  Against claim C3, as stated: in the script \<^verbatim>\<open>register_singleton(db, 1)\<close>,
  \<^verbatim>\<open>register_singleton(db, 2)\<close>, \<^verbatim>\<open>get(db)\<close> the lookup returns 2. With the second
  call replaced by \<^verbatim>\<open>register_instance(db, 2)\<close> it returns 1: the instance goes to
  another dictionary, and the earlier singleton is found first.
\<close>

theorem swap_counterexample:
  "fst (run (Suc 0) ex_program
     [Register (RegisterSingleton (Tag ''db'') (IntVal 1)),
      Register (RegisterSingleton (Tag ''db'') (IntVal 2)),
      Resolve (Tag ''db'')] (new_container, 0)) = [Inr (IntVal 2)] \<and>
   fst (run (Suc 0) ex_program
     [Register (RegisterSingleton (Tag ''db'') (IntVal 1)),
      Register (RegisterInstance (Tag ''db'') (IntVal 2)),
      Resolve (Tag ''db'')] (new_container, 0)) = [Inr (IntVal 1)]"
  by (simp add: ex_defs)

lemma obliviousD:
  "oblivious f \<Longrightarrow> f (C', w) = (fst (f (C, w)), (C', snd (snd (f (C, w)))))"
  unfolding oblivious_def by (metis prod.collapse)

lemma oblivious_leaves: "oblivious f \<Longrightarrow> leaves_container f"
  unfolding oblivious_def leaves_container_def by auto

lemma get_first_match:
  "get d P s k =
     (case first_match (fst s) k of
        Some (Inl v) \<Rightarrow> (Inr v, s)
      | Some (Inr f) \<Rightarrow> callables P f s
      | None \<Rightarrow> (case k of Cls c \<Rightarrow> auto_wire d P s c
                           | Tag t \<Rightarrow> (Inl (NoRegistrationFound k), s)))"
  by (simp add: get.simps first_match_def split: option.splits)

lemma call_cls_oblivious:
  assumes "\<forall>args. oblivious (init decl args)"
  shows "call_cls decl kw (C', w) = (fst (call_cls decl kw (C, w)), (C', snd (snd (call_cls decl kw (C, w)))))"
proof -
  have "init decl args (C', w) = (fst (init decl args (C, w)), (C', snd (snd (init decl args (C, w)))))"
    for args
    using assms obliviousD [of "init decl args" C' w C] by blast
  then show ?thesis
    by (simp add: call_cls_def split: sum.splits list.splits)
qed

lemma reraise_fst: "fst (reraise c out) = fst (reraise c (fst out, x))"
  by (simp add: reraise_def split: prod.splits sum.splits)

lemma reraise_pair: "reraise c (r, t) = (fst (reraise c (r, t)), t)"
  by (simp add: reraise_def split: sum.splits)

lemma equiv_aux:
  assumes O1: "\<forall>f. oblivious (callables P f)"
    and O2: "\<forall>c kw. oblivious (init (class_table P c) kw)"
  shows "\<forall>C2. first_match C2 = first_match (fst s) \<longrightarrow>
           get d P (C2, snd s) k = (fst (get d P s k), (C2, snd (snd (get d P s k))))"
    and "\<forall>C2. first_match C2 = first_match (fst s) \<longrightarrow>
           auto_wire d P (C2, snd s) c = (fst (auto_wire d P s c), (C2, snd (snd (auto_wire d P s c))))"
    and "\<forall>C2. first_match C2 = first_match (fst s) \<longrightarrow>
           build_kwargs d P th ps kw (C2, snd s)
           = (fst (build_kwargs d P th ps kw s), (C2, snd (snd (build_kwargs d P th ps kw s))))"
  using assms
proof (induction d P s k and d P s c and d P th ps kw s rule: get_auto_wire_build_kwargs.induct)
  case (1 d P s interface)
  show ?case
  proof (intro allI impI)
    fix C2 assume E: "first_match C2 = first_match (fst s)"
    show "get d P (C2, snd s) interface
        = (fst (get d P s interface), (C2, snd (snd (get d P s interface))))"
    proof (cases "first_match (fst s) interface")
      case None
      then have n: "singletons (fst s) interface = None" "services (fst s) interface = None"
        "factories (fst s) interface = None"
        by (auto simp: first_match_def split: option.splits)
      show ?thesis
      proof (cases interface)
        case (Cls c)
        from "1.IH" [OF n Cls] "1.prems" E
        have "auto_wire d P (C2, snd s) c
            = (fst (auto_wire d P s c), (C2, snd (snd (auto_wire d P s c))))"
          by blast
        with None E Cls show ?thesis by (simp add: get_first_match)
      next
        case (Tag t)
        with None E show ?thesis by (simp add: get_first_match)
      qed
    next
      case (Some m)
      show ?thesis
      proof (cases m)
        case (Inl v)
        with Some E show ?thesis by (simp add: get_first_match)
      next
        case (Inr f)
        from "1.prems" have "oblivious (callables P f)" by blast
        from obliviousD [OF this, of C2 "snd s" "fst s"] Some Inr E
        show ?thesis by (simp add: get_first_match)
      qed
    qed
  qed
next
  case (2 P s c)
  then show ?case by simp
next
  case (3 d P s c)
  let ?decl = "class_table P c"
  let ?b = "build_kwargs d P (type_hints ?decl) (parameters ?decl) [] s"
  have L: "fst (snd ?b) = fst s"
    using frame_aux(3) [of "fst s" P s d "type_hints ?decl" "parameters ?decl" "[]"] "3.prems"
    by (simp add: oblivious_leaves)
  show ?case
  proof (intro allI impI)
    fix C2 assume E: "first_match C2 = first_match (fst s)"
    from "3.IH" "3.prems" E
    have B: "build_kwargs d P (type_hints ?decl) (parameters ?decl) [] (C2, snd s)
        = (fst ?b, (C2, snd (snd ?b)))"
      by blast
    obtain r s1 where b: "?b = (r, s1)" by (cases ?b)
    show "auto_wire (Suc d) P (C2, snd s) c
        = (fst (auto_wire (Suc d) P s c), (C2, snd (snd (auto_wire (Suc d) P s c))))"
    proof (cases r)
      case (Inl e)
      with b B show ?thesis by simp
    next
      case (Inr kw)
      from "3.prems" have "\<forall>args. oblivious (init ?decl args)"
        by blast
      from call_cls_oblivious [OF this, of kw C2 "snd s1" "fst s1"]
      have "call_cls ?decl kw (C2, snd s1)
          = (fst (call_cls ?decl kw s1), (C2, snd (snd (call_cls ?decl kw s1))))"
        by simp
      with Inr b B show ?thesis
        by (simp add: reraise_def split: prod.splits sum.splits)
    qed
  qed
next
  case (4 d P th kw s)
  then show ?case by simp
next
  case (5 d P th p ps kw s)
  show ?case
  proof (intro allI impI)
    fix C2 assume E: "first_match C2 = first_match (fst s)"
    show "build_kwargs d P th (p # ps) kw (C2, snd s)
        = (fst (build_kwargs d P th (p # ps) kw s),
           (C2, snd (snd (build_kwargs d P th (p # ps) kw s))))"
    proof (cases "fst p = ''self''")
      case True
      from "5.IH"(1) [OF True] "5.prems" E True show ?thesis by simp
    next
      case ns: False
      show ?thesis
      proof (cases "th (fst p)")
        case None
        from "5.IH"(2) [OF ns None] "5.prems" E ns None show ?thesis by simp
      next
        case (Some t)
        from "5.IH"(3) [OF ns Some] "5.prems" E
        have G: "get d P (C2, snd s) t = (fst (get d P s t), (C2, snd (snd (get d P s t))))"
          by blast
        obtain r s1 where g: "get d P s t = (r, s1)" by (cases "get d P s t")
        have L: "fst s1 = fst s"
          using frame_aux(1) [of "fst s" P s d t] "5.prems" g
          by (simp add: oblivious_leaves)
        show ?thesis
        proof (cases r)
          case (Inl e)
          with ns Some g G show ?thesis by simp
        next
          case (Inr v)
          from "5.IH"(4) [OF ns Some g [symmetric] Inr] "5.prems" E L
          have "build_kwargs d P th ps (AList.update (fst p) v kw) (C2, snd s1)
              = (fst (build_kwargs d P th ps (AList.update (fst p) v kw) s1),
                 (C2, snd (snd (build_kwargs d P th ps (AList.update (fst p) v kw) s1))))"
            by simp
          with ns Some g G Inr show ?thesis by simp
        qed
      qed
    qed
  qed
qed


lemma get_equiv:
  assumes O1: "\<forall>f. oblivious (callables P f)"
    and O2: "\<forall>c kw. oblivious (init (class_table P c) kw)"
    and E: "first_match C2 = first_match C1"
  shows "get d P (C2, w) k = (fst (get d P (C1, w) k), (C2, snd (snd (get d P (C1, w) k))))"
  using equiv_aux(1) [OF O1 O2, of "(C1, w)" d k, unfolded fst_conv snd_conv] E by blast

lemma get_oblivious_state:
  assumes O1: "\<forall>f. oblivious (callables P f)"
    and O2: "\<forall>c kw. oblivious (init (class_table P c) kw)"
  shows "fst (snd (get d P (C, w) k)) = C"
  using frame_aux(1) [of C P "(C, w)" d k] O1 O2 by (simp add: oblivious_leaves)

lemma differ_atI:
  "factories C1 = factories C2 \<Longrightarrow>
   (\<And>k. k \<noteq> K \<Longrightarrow> singletons C1 k = singletons C2 k) \<Longrightarrow>
   (\<And>k. k \<noteq> K \<Longrightarrow> services C1 k = services C2 k) \<Longrightarrow>
   singletons C1 K = Some v \<Longrightarrow>
   singletons C2 K = Some v \<or> (singletons C2 K = None \<and> services C2 K = Some v) \<Longrightarrow>
   differ_at K C1 C2"
  unfolding differ_at_def by blast

lemma differ_at_register:
  assumes D: "differ_at K C1 C2" and N: "\<not> instance_on K (Register r)"
  shows "differ_at K (register C1 r) (register C2 r)"
proof -
  from D have F: "factories C1 = factories C2"
    and S: "\<And>k. k \<noteq> K \<Longrightarrow> singletons C1 k = singletons C2 k"
    and I: "\<And>k. k \<noteq> K \<Longrightarrow> services C1 k = services C2 k"
    unfolding differ_at_def by blast+
  from D obtain v where v1: "singletons C1 K = Some v"
    and v2: "singletons C2 K = Some v \<or> (singletons C2 K = None \<and> services C2 K = Some v)"
    unfolding differ_at_def by blast
  show ?thesis
  proof (cases r)
    case (RegisterSingleton k x)
    show ?thesis
    proof (cases "k = K")
      case True
      show ?thesis
        unfolding RegisterSingleton True register.simps
      proof (rule differ_atI [where v = x])
        show "factories (register_singleton C1 K x) = factories (register_singleton C2 K x)"
          using F by (simp add: register_singleton_def)
        show "singletons (register_singleton C1 K x) k' = singletons (register_singleton C2 K x) k'"
          if "k' \<noteq> K" for k'
          using S [OF that] that by (simp add: register_singleton_def)
        show "services (register_singleton C1 K x) k' = services (register_singleton C2 K x) k'"
          if "k' \<noteq> K" for k'
          using I [OF that] by (simp add: register_singleton_def)
        show "singletons (register_singleton C1 K x) K = Some x"
          by (simp add: register_singleton_def)
        show "singletons (register_singleton C2 K x) K = Some x \<or>
            (singletons (register_singleton C2 K x) K = None \<and>
             services (register_singleton C2 K x) K = Some x)"
          by (simp add: register_singleton_def)
      qed
    next
      case False
      show ?thesis
        unfolding RegisterSingleton register.simps
      proof (rule differ_atI [where v = v])
        show "factories (register_singleton C1 k x) = factories (register_singleton C2 k x)"
          using F by (simp add: register_singleton_def)
        show "singletons (register_singleton C1 k x) k' = singletons (register_singleton C2 k x) k'"
          if "k' \<noteq> K" for k'
          using S [OF that] by (simp add: register_singleton_def)
        show "services (register_singleton C1 k x) k' = services (register_singleton C2 k x) k'"
          if "k' \<noteq> K" for k'
          using I [OF that] by (simp add: register_singleton_def)
        show "singletons (register_singleton C1 k x) K = Some v"
          using v1 False by (simp add: register_singleton_def)
        show "singletons (register_singleton C2 k x) K = Some v \<or>
            (singletons (register_singleton C2 k x) K = None \<and>
             services (register_singleton C2 k x) K = Some v)"
          using v2 False by (simp add: register_singleton_def)
      qed
    qed
  next
    case (RegisterTransient k f)
    show ?thesis
      unfolding RegisterTransient register.simps
    proof (rule differ_atI [where v = v])
      show "factories (register_transient C1 k f) = factories (register_transient C2 k f)"
        using F by (simp add: register_transient_def)
      show "singletons (register_transient C1 k f) k' = singletons (register_transient C2 k f) k'"
        if "k' \<noteq> K" for k'
        using S [OF that] by (simp add: register_transient_def)
      show "services (register_transient C1 k f) k' = services (register_transient C2 k f) k'"
        if "k' \<noteq> K" for k'
        using I [OF that] by (simp add: register_transient_def)
      show "singletons (register_transient C1 k f) K = Some v"
        using v1 by (simp add: register_transient_def)
      show "singletons (register_transient C2 k f) K = Some v \<or>
          (singletons (register_transient C2 k f) K = None \<and>
           services (register_transient C2 k f) K = Some v)"
        using v2 by (simp add: register_transient_def)
    qed
  next
    case (RegisterInstance k x)
    with N have ne: "k \<noteq> K" by simp
    show ?thesis
      unfolding RegisterInstance register.simps
    proof (rule differ_atI [where v = v])
      show "factories (register_instance C1 k x) = factories (register_instance C2 k x)"
        using F by (simp add: register_instance_def)
      show "singletons (register_instance C1 k x) k' = singletons (register_instance C2 k x) k'"
        if "k' \<noteq> K" for k'
        using S [OF that] by (simp add: register_instance_def)
      show "services (register_instance C1 k x) k' = services (register_instance C2 k x) k'"
        if "k' \<noteq> K" for k'
        using I [OF that] by (simp add: register_instance_def)
      show "singletons (register_instance C1 k x) K = Some v"
        using v1 by (simp add: register_instance_def)
      show "singletons (register_instance C2 k x) K = Some v \<or>
          (singletons (register_instance C2 k x) K = None \<and>
           services (register_instance C2 k x) K = Some v)"
        using v2 ne by (simp add: register_instance_def)
    qed
  qed
qed

lemma differ_at_view:
  assumes D: "differ_at K C1 C2"
  shows "first_match C2 = first_match C1"
proof
  fix k
  show "first_match C2 k = first_match C1 k"
  proof (cases "k = K")
    case True
    from D obtain v where "singletons C1 K = Some v"
      and "singletons C2 K = Some v \<or> (singletons C2 K = None \<and> services C2 K = Some v)"
      unfolding differ_at_def by blast
    then have "first_match C1 K = Some (Inl v)" and "first_match C2 K = Some (Inl v)"
      by (auto simp: first_match_def)
    with True show ?thesis by simp
  next
    case False
    with D have "singletons C1 k = singletons C2 k" "services C1 k = services C2 k"
      "factories C1 = factories C2"
      unfolding differ_at_def by blast+
    then show ?thesis by (simp add: first_match_def split: option.splits)
  qed
qed

lemma fst_run_Resolve:
  "fst (run d P (Resolve k # ops) s) = fst (get d P s k) # fst (run d P ops (snd (get d P s k)))"
  by (simp split: prod.splits)

lemma run_equiv:
  assumes O1: "\<forall>f. oblivious (callables P f)"
    and O2: "\<forall>c kw. oblivious (init (class_table P c) kw)"
  shows "differ_at K C1 C2 \<Longrightarrow> \<forall>op\<in>set ops. \<not> instance_on K op \<Longrightarrow>
    fst (run d P ops (C1, w)) = fst (run d P ops (C2, w))"
proof (induction ops arbitrary: C1 C2 w)
  case Nil
  then show ?case by simp
next
  case (Cons op ops)
  from Cons.prems(2) have rest: "\<forall>op\<in>set ops. \<not> instance_on K op" by simp
  show ?case
  proof (cases op)
    case (Register r)
    with Cons.prems have "\<not> instance_on K (Register r)" by simp
    from differ_at_register [OF Cons.prems(1) this]
    have "fst (run d P ops (register C1 r, w)) = fst (run d P ops (register C2 r, w))"
      using rest by (rule Cons.IH)
    with Register show ?thesis by simp
  next
    case (Resolve k)
    from differ_at_view [OF Cons.prems(1)]
    have E: "first_match C2 = first_match C1" .
    obtain r s1 where g1: "get d P (C1, w) k = (r, s1)" by (cases "get d P (C1, w) k")
    from get_oblivious_state [OF O1 O2, of d C1 w k] g1 have s1: "s1 = (C1, snd s1)"
      by (cases s1) simp
    from get_equiv [OF O1 O2 E, of d w k] g1
    have g2: "get d P (C2, w) k = (r, (C2, snd s1))" by simp
    from Cons.prems(1) rest
    have "fst (run d P ops (C1, snd s1)) = fst (run d P ops (C2, snd s1))"
      by (rule Cons.IH)
    with s1 have "fst (run d P ops s1) = fst (run d P ops (C2, snd s1))" by simp
    with Resolve g1 g2 show ?thesis by (simp only: fst_run_Resolve fst_conv snd_conv)
  qed
qed
lemma ex_callables_oblivious: "oblivious (callables ex_program f)"
  by (simp add: oblivious_def ex_program_def counter_def)

lemma ex_init_oblivious: "oblivious (init (class_table ex_program c) kw)"
  by (simp add: oblivious_def ex_program_def ex_classes_def plain_init_def)

text \<open>
  Claim C3, amended. \<^verbatim>\<open>register_singleton(K, V)\<close> and \<^verbatim>\<open>register_instance(K, V)\<close>
  can be swapped without changing what any later \<^verbatim>\<open>get\<close> gives, for whatever key,
  when \<open>K\<close> has no singleton at the time of the call and \<^verbatim>\<open>register_instance\<close> is not
  called for \<open>K\<close> afterwards (and the factories and constructors do not look at the
  container themselves). The later script is arbitrary otherwise: registrations and
  lookups, of \<open>K\<close> or of other keys.
\<close>

theorem swap_singleton_instance:
  assumes "\<forall>f. oblivious (callables P f)"
    and "\<forall>c kw. oblivious (init (class_table P c) kw)"
    and "singletons C K = None"
    and "\<forall>op\<in>set ops. \<not> instance_on K op"
  shows "fst (run d P (Register (RegisterSingleton K V) # ops) (C, w))
       = fst (run d P (Register (RegisterInstance K V) # ops) (C, w))"
proof -
  have "differ_at K (register_singleton C K V) (register_instance C K V)"
  proof (rule differ_atI [where v = V])
    show "factories (register_singleton C K V) = factories (register_instance C K V)"
      by (simp add: register_singleton_def register_instance_def)
    show "singletons (register_singleton C K V) k = singletons (register_instance C K V) k"
      if "k \<noteq> K" for k
      using that by (simp add: register_singleton_def register_instance_def)
    show "services (register_singleton C K V) k = services (register_instance C K V) k"
      if "k \<noteq> K" for k
      using that by (simp add: register_singleton_def register_instance_def)
    show "singletons (register_singleton C K V) K = Some V"
      by (simp add: register_singleton_def)
    show "singletons (register_instance C K V) K = Some V \<or>
        (singletons (register_instance C K V) K = None \<and>
         services (register_instance C K V) K = Some V)"
      using assms(3) by (simp add: register_instance_def)
  qed
  from run_equiv [OF assms(1,2) this assms(4)]
  have "fst (run d P ops (register_singleton C K V, w))
      = fst (run d P ops (register_instance C K V, w))" .
  then show ?thesis by simp
qed

theorem swap_singleton_instance_witness:
  "fst (run (Suc (Suc 0)) ex_program
     [Register (RegisterSingleton (Cls ''Repo'') (IntVal 1)),
      Register (RegisterTransient (Tag ''id'') 0), Resolve (Cls ''Service''),
      Resolve (Tag ''id''), Register (RegisterSingleton (Cls ''Repo'') (IntVal 2)),
      Resolve (Cls ''Repo'')] (register_instance new_container (Cls ''Repo'') (IntVal 0), 0))
   = fst (run (Suc (Suc 0)) ex_program
     [Register (RegisterInstance (Cls ''Repo'') (IntVal 1)),
      Register (RegisterTransient (Tag ''id'') 0), Resolve (Cls ''Service''),
      Resolve (Tag ''id''), Register (RegisterSingleton (Cls ''Repo'') (IntVal 2)),
      Resolve (Cls ''Repo'')] (register_instance new_container (Cls ''Repo'') (IntVal 0), 0)) \<and>
   fst (run (Suc (Suc 0)) ex_program
     [Register (RegisterSingleton (Cls ''Repo'') (IntVal 1)),
      Register (RegisterTransient (Tag ''id'') 0), Resolve (Cls ''Service''),
      Resolve (Tag ''id''), Register (RegisterSingleton (Cls ''Repo'') (IntVal 2)),
      Resolve (Cls ''Repo'')] (register_instance new_container (Cls ''Repo'') (IntVal 0), 0))
   = [Inr (Instance ''Service'' [(''repo'', IntVal 1)]), Inr (IntVal 0), Inr (IntVal 2)]"
proof -
  let ?C = "register_instance new_container (Cls ''Repo'') (IntVal 0)"
  let ?ops = "[Register (RegisterTransient (Tag ''id'') 0), Resolve (Cls ''Service''),
      Resolve (Tag ''id''), Register (RegisterSingleton (Cls ''Repo'') (IntVal 2)),
      Resolve (Cls ''Repo'')]"
  have 1: "\<forall>f. oblivious (callables ex_program f)" by (simp add: ex_callables_oblivious)
  have 2: "\<forall>c kw. oblivious (init (class_table ex_program c) kw)" by (simp add: ex_init_oblivious)
  have 3: "singletons ?C (Cls ''Repo'') = None" by (simp add: ex_defs)
  have 4: "\<forall>op\<in>set ?ops. \<not> instance_on (Cls ''Repo'') op" by simp
  have 5: "fst (run (Suc (Suc 0)) ex_program
     (Register (RegisterSingleton (Cls ''Repo'') (IntVal 1)) # ?ops) (?C, 0))
     = [Inr (Instance ''Service'' [(''repo'', IntVal 1)]), Inr (IntVal 0), Inr (IntVal 2)]"
    by (simp add: ex_defs)
  from swap_singleton_instance [OF 1 2 3 4, of "Suc (Suc 0)" "IntVal 1" 0] 5
  show ?thesis by simp
qed

subsection \<open>Classes that ask for themselves\<close>





















end
